theory Spec2Isabelle
  imports Complex_Main "HOL-Library.Word"
begin

section \<open>Tables as the ledger processor sees them\<close>

text \<open>
  \<^verbatim>\<open>ExcelProcessor\<close> (\<^verbatim>\<open>Utils/excel_processor.py\<close>) works on the pandas table that
  \<^verbatim>\<open>read_excel\<close> loads from the export, with the banner row skipped. A table is a list of
  named columns; every column carries the dtype pandas gave it and one cell per data row.

  A cell is empty (\<^verbatim>\<open>NaN\<close>, \<^verbatim>\<open>NaT\<close>), a number, a text or a date (year, month, day; the
  time of day is read by no operation of the processor). A number is an \<^verbatim>\<open>int64\<close>, a word
  of 64 bits read as a signed integer, whose arithmetic wraps around; or a \<^verbatim>\<open>float64\<close>
  that is not \<^verbatim>\<open>NaN\<close>: a finite value (\<open>Finite 0\<close> is \<^verbatim>\<open>+0.0\<close>), the negative zero or an
  infinity. Texts are 8-bit strings, a character standing for the code point of the same
  number.
\<close>

datatype float64 = Finite rat | NegZero | PosInf | NegInf

datatype cell = NaN | I64 "64 word" | F64 float64 | Str string | Date nat nat nat

text \<open>
  The sign test, the test for zero and the negation of a \<^verbatim>\<open>float64\<close> are exact. The
  operations that round are those of the platform and are parameters of the development:
  the conversion of an \<^verbatim>\<open>int64\<close>, the product of two values and the sum of an array as
  \<^verbatim>\<open>Series.sum()\<close> computes it (the order in which numpy adds the elements is not fixed by
  the program). A product or a sum may be \<^verbatim>\<open>NaN\<close>, which is \<open>None\<close> here. Every statement
  below holds for all values of these parameters.
\<close>

record fpu =
  f_of_int :: "64 word \<Rightarrow> float64"
  f_mul :: "float64 \<Rightarrow> float64 \<Rightarrow> float64 option"
  f_sum :: "float64 list \<Rightarrow> float64 option"

fun f_gt0 :: "float64 \<Rightarrow> bool" where
  "f_gt0 (Finite r) = (0 < r)"
| "f_gt0 PosInf = True"
| "f_gt0 _ = False"

fun f_eq0 :: "float64 \<Rightarrow> bool" where
  "f_eq0 (Finite r) = (r = 0)"
| "f_eq0 NegZero = True"
| "f_eq0 _ = False"

fun f_neg :: "float64 \<Rightarrow> float64" where
  "f_neg (Finite r) = (if r = 0 then NegZero else Finite (- r))"
| "f_neg NegZero = Finite 0"
| "f_neg PosInf = NegInf"
| "f_neg NegInf = PosInf"

definition of_float :: "float64 option \<Rightarrow> cell" where
  "of_float x = (case x of None \<Rightarrow> NaN | Some v \<Rightarrow> F64 v)"

datatype dtype = Int64 | Float64 | Object | Datetime64

record column =
  cname :: string
  ctype :: dtype
  cells :: "cell list"

type_synonym frame = "column list"

datatype error =
    ValueError string
  | KeyError string
  | TypeError
  | AttributeError
  | IndexError
  | FileNotFoundError
  | BadZipFile
  | HttpError
  | Exception string

definition columns :: "frame \<Rightarrow> string list" where
  "columns df = map cname df"

text \<open>\<^verbatim>\<open>len(df)\<close>: the number of rows.\<close>

definition nrows :: "frame \<Rightarrow> nat" where
  "nrows df = (case df of [] \<Rightarrow> 0 | c # _ \<Rightarrow> length (cells c))"

text \<open>\<^verbatim>\<open>df.columns.get_loc(name)\<close> and \<^verbatim>\<open>df[name]\<close>; \<open>None\<close> stands for the \<^verbatim>\<open>KeyError\<close>.\<close>

fun get_loc :: "string \<Rightarrow> frame \<Rightarrow> nat option" where
  "get_loc n [] = None"
| "get_loc n (c # cs) = (if cname c = n then Some 0 else map_option Suc (get_loc n cs))"

fun getcol :: "string \<Rightarrow> frame \<Rightarrow> column option" where
  "getcol n [] = None"
| "getcol n (c # cs) = (if cname c = n then Some c else getcol n cs)"

definition is_numeric :: "dtype \<Rightarrow> bool" where
  "is_numeric t = (t = Float64 \<or> t = Int64)"

text \<open>
  What \<^verbatim>\<open>read_excel\<close> guarantees of a loaded table: column labels are distinct (pandas
  renames a repeated header), every column has one cell per row, and the cells of a column
  fit its dtype (\<^verbatim>\<open>int64\<close> has no empty cell; \<^verbatim>\<open>float64\<close> holds numbers and \<^verbatim>\<open>NaN\<close>;
  \<^verbatim>\<open>datetime64\<close> holds dates and \<^verbatim>\<open>NaT\<close>; \<^verbatim>\<open>object\<close> holds anything).
\<close>

fun cell_fits :: "dtype \<Rightarrow> cell \<Rightarrow> bool" where
  "cell_fits Int64 (I64 _) = True"
| "cell_fits Int64 _ = False"
| "cell_fits Float64 (F64 _) = True"
| "cell_fits Float64 NaN = True"
| "cell_fits Float64 _ = False"
| "cell_fits Datetime64 (Date _ _ _) = True"
| "cell_fits Datetime64 NaN = True"
| "cell_fits Datetime64 _ = False"
| "cell_fits Object _ = True"

definition wf_frame :: "frame \<Rightarrow> bool" where
  "wf_frame df =
     (distinct (columns df) \<and>
      list_all (\<lambda>c. length (cells c) = nrows df) df \<and>
      list_all (\<lambda>c. list_all (cell_fits (ctype c)) (cells c)) df)"

section \<open>The credit-note pattern\<close>

text \<open>
  \<^verbatim>\<open>str.contains('nota de cr[e\'e]dito|nc', case=False, na=False)\<close> on the \<^verbatim>\<open>Tipo\<close> column
  after \<^verbatim>\<open>astype(str)\<close>: a regular-expression search, so the pattern may start anywhere in
  the text. A pattern is a list of character classes; under \<^verbatim>\<open>case=False\<close> the class of a
  letter holds both its cases.
\<close>

fun matches_prefix :: "string list \<Rightarrow> string \<Rightarrow> bool" where
  "matches_prefix [] s = True"
| "matches_prefix (cls # p) [] = False"
| "matches_prefix (cls # p) (c # s) = (c \<in> set cls \<and> matches_prefix p s)"

fun re_search :: "string list \<Rightarrow> string \<Rightarrow> bool" where
  "re_search p [] = matches_prefix p []"
| "re_search p (c # s) = (matches_prefix p (c # s) \<or> re_search p s)"

definition pat_nota_de_credito :: "string list" where
  "pat_nota_de_credito =
     [''nN'', ''oO'', ''tT'', ''aA'', '' '', ''dD'', ''eE'', '' '', ''cC'', ''rR'',
      [CHR ''e'', CHR ''E'', CHR 0xE9, CHR 0xC9],
      ''dD'', ''iI'', ''tT'', ''oO'']"

definition pat_nc :: "string list" where
  "pat_nc = [''nN'', ''cC'']"

text \<open>
  The text of an empty cell (\<^verbatim>\<open>'nan'\<close>, \<^verbatim>\<open>'NaT'\<close>), of a number and of a date holds neither
  alternative, so only a text cell can match.
\<close>

fun is_nota_credito :: "cell \<Rightarrow> bool" where
  "is_nota_credito (Str s) = (re_search pat_nota_de_credito s \<or> re_search pat_nc s)"
| "is_nota_credito _ = False"

section \<open>\<^verbatim>\<open>ExcelProcessor.clean_data\<close>\<close>

subsection \<open>Dropping the empty columns after \<^verbatim>\<open>Moneda\<close>\<close>

text \<open>\<^verbatim>\<open>df[col].isna().all()\<close> and \<^verbatim>\<open>(df[col] == 0).all()\<close>.\<close>

definition isna_all :: "column \<Rightarrow> bool" where
  "isna_all c = list_all (\<lambda>x. x = NaN) (cells c)"

fun eq0 :: "cell \<Rightarrow> bool" where
  "eq0 (I64 a) = (a = 0)"
| "eq0 (F64 x) = f_eq0 x"
| "eq0 _ = False"

definition eq0_all :: "column \<Rightarrow> bool" where
  "eq0_all c = list_all eq0 (cells c)"

definition columns_to_drop :: "nat \<Rightarrow> frame \<Rightarrow> string list" where
  "columns_to_drop moneda_idx df =
     filter (\<lambda>col. case getcol col df of
                      None \<Rightarrow> False
                    | Some c \<Rightarrow> isna_all c \<or> eq0_all c)
            (drop (moneda_idx + 1) (columns df))"

text \<open>\<^verbatim>\<open>df.drop(columns=names)\<close>.\<close>

definition drop_columns :: "string list \<Rightarrow> frame \<Rightarrow> frame" where
  "drop_columns names df = filter (\<lambda>c. cname c \<notin> set names) df"

definition numeric_cols :: "nat \<Rightarrow> frame \<Rightarrow> string list" where
  "numeric_cols moneda_idx df =
     map cname (filter (\<lambda>c. is_numeric (ctype c)) (drop (moneda_idx + 1) df))"

subsection \<open>Scaling by the exchange rate and the sign of credit notes\<close>

text \<open>
  Arithmetic of numeric cells. The product of two \<^verbatim>\<open>int64\<close> is the product of the words,
  which wraps around. When one factor is a \<^verbatim>\<open>float64\<close> the other is converted and the
  product is the platform's; \<^verbatim>\<open>NaN\<close> is absorbing. \<^verbatim>\<open>NaN > 0\<close> is false, and the
  negation of an \<^verbatim>\<open>int64\<close> is the negation of the word.
\<close>

fun mul_cell :: "fpu \<Rightarrow> cell \<Rightarrow> cell \<Rightarrow> cell" where
  "mul_cell fp (I64 a) (I64 b) = I64 (a * b)"
| "mul_cell fp (I64 a) (F64 y) = of_float (f_mul fp (f_of_int fp a) y)"
| "mul_cell fp (F64 x) (I64 b) = of_float (f_mul fp x (f_of_int fp b))"
| "mul_cell fp (F64 x) (F64 y) = of_float (f_mul fp x y)"
| "mul_cell fp _ _ = NaN"

fun gt0 :: "cell \<Rightarrow> bool" where
  "gt0 (I64 a) = (0 < sint a)"
| "gt0 (F64 x) = f_gt0 x"
| "gt0 _ = False"

fun neg_cell :: "cell \<Rightarrow> cell" where
  "neg_cell (I64 a) = I64 (- a)"
| "neg_cell (F64 x) = F64 (f_neg x)"
| "neg_cell c = c"

definition mul_dtype :: "dtype \<Rightarrow> dtype \<Rightarrow> dtype" where
  "mul_dtype a b = (if a = Int64 \<and> b = Int64 then Int64 else Float64)"

text \<open>
  One pass of the loop over \<^verbatim>\<open>numeric_cols\<close>, on the table as the earlier passes left it:
  \<^verbatim>\<open>df[col] = df[col] * df['Tipo Cambio']\<close>, then
  \<^verbatim>\<open>df.loc[is_nota_credito & (df[col] > 0), col] = -df.loc[...]\<close>.
  A missing rate column is a \<^verbatim>\<open>KeyError\<close>; a rate column of text or dates makes the
  product or the comparison raise \<^verbatim>\<open>TypeError\<close>.
\<close>

definition sign_fix :: "bool \<Rightarrow> cell \<Rightarrow> cell" where
  "sign_fix nc v = (if nc \<and> gt0 v then neg_cell v else v)"

definition scale_col :: "fpu \<Rightarrow> bool list \<Rightarrow> column \<Rightarrow> column \<Rightarrow> column" where
  "scale_col fp is_nc rate c =
     c\<lparr>ctype := mul_dtype (ctype c) (ctype rate),
       cells := map (\<lambda>(nc, v). sign_fix nc v)
                  (zip is_nc (map (\<lambda>(v, r). mul_cell fp v r) (zip (cells c) (cells rate))))\<rparr>"

definition scale_step :: "fpu \<Rightarrow> bool list \<Rightarrow> string \<Rightarrow> frame \<Rightarrow> error + frame" where
  "scale_step fp is_nc col df =
     (case getcol ''Tipo Cambio'' df of
        None \<Rightarrow> Inl (KeyError ''Tipo Cambio'')
      | Some rate \<Rightarrow>
          if \<not> is_numeric (ctype rate) then Inl TypeError
          else Inr (map (\<lambda>c. if cname c = col then scale_col fp is_nc rate c else c) df))"

fun scale_loop :: "fpu \<Rightarrow> bool list \<Rightarrow> string list \<Rightarrow> frame \<Rightarrow> error + frame" where
  "scale_loop fp is_nc [] df = Inr df"
| "scale_loop fp is_nc (col # cols) df =
     (case scale_step fp is_nc col df of
        Inl e \<Rightarrow> Inl e
      | Inr df' \<Rightarrow> scale_loop fp is_nc cols df')"

subsection \<open>The date column as text\<close>

definition digit :: "nat \<Rightarrow> char" where
  "digit n = ''0123456789'' ! (n mod 10)"

definition strftime_dmy :: "cell \<Rightarrow> cell" where
  "strftime_dmy x =
     (case x of
        Date y m d \<Rightarrow>
          Str ([digit (d div 10), digit d, CHR ''/'', digit (m div 10), digit m, CHR ''/'',
                digit (y div 1000), digit (y div 100), digit (y div 10), digit y])
      | _ \<Rightarrow> NaN)"

text \<open>
  \<^verbatim>\<open>if df['Fecha'].dtype == 'object': pass\<close>, otherwise
  \<^verbatim>\<open>df['Fecha'] = df['Fecha'].dt.strftime('%d/%m/%Y')\<close>; the \<^verbatim>\<open>.dt\<close> accessor of a numeric
  column raises \<^verbatim>\<open>AttributeError\<close>.
\<close>

definition format_fecha :: "frame \<Rightarrow> error + frame" where
  "format_fecha df =
     (case getcol ''Fecha'' df of
        None \<Rightarrow> Inl (KeyError ''Fecha'')
      | Some f \<Rightarrow>
          if ctype f = Object then Inr df
          else if ctype f = Datetime64 then
            Inr (map (\<lambda>c. if cname c = ''Fecha''
                           then c\<lparr>ctype := Object, cells := map strftime_dmy (cells c)\<rparr>
                           else c) df)
          else Inl AttributeError)"

subsection \<open>The totals row\<close>

text \<open>
  \<^verbatim>\<open>Series.sum()\<close>. On an \<^verbatim>\<open>int64\<close> column it is the sum of the words, which wraps
  around. On a \<^verbatim>\<open>float64\<close> column the empty cells are replaced by \<^verbatim>\<open>0.0\<close> and the array is
  summed by the platform.
\<close>

fun i64_of :: "cell \<Rightarrow> 64 word" where
  "i64_of (I64 a) = a"
| "i64_of _ = 0"

fun f64_of :: "cell \<Rightarrow> float64" where
  "f64_of (F64 x) = x"
| "f64_of _ = Finite 0"

definition col_sum :: "fpu \<Rightarrow> dtype \<Rightarrow> cell list \<Rightarrow> cell" where
  "col_sum fp t xs =
     (if t = Int64 then I64 (sum_list (map i64_of xs))
      else of_float (f_sum fp (map f64_of xs)))"

text \<open>
  \<^verbatim>\<open>totals_row[col] = df[col].sum() if col in numeric_cols else ''\<close>, then
  \<^verbatim>\<open>pd.concat([df, pd.DataFrame([totals_row])], ignore_index=True)\<close>: a column that receives
  the empty text becomes an \<^verbatim>\<open>object\<close> column, a summed column keeps its numeric dtype.
\<close>

definition append_totals :: "fpu \<Rightarrow> string list \<Rightarrow> frame \<Rightarrow> frame" where
  "append_totals fp ncols df =
     map (\<lambda>c. if cname c \<in> set ncols
              then c\<lparr>cells := cells c @ [col_sum fp (ctype c) (cells c)]\<rparr>
              else c\<lparr>ctype := Object, cells := cells c @ [Str '''']\<rparr>) df"

subsection \<open>The whole transformation\<close>

definition msg_no_moneda :: string where
  "msg_no_moneda = ''No se encontr'' @ [CHR 0xF3] @ '' la columna 'Moneda' en el Excel''"

definition clean_data :: "fpu \<Rightarrow> frame \<Rightarrow> error + frame" where
  "clean_data fp df =
     (case get_loc ''Moneda'' df of
        None \<Rightarrow> Inl (ValueError msg_no_moneda)
      | Some moneda_idx \<Rightarrow>
          let df_clean = drop_columns (columns_to_drop moneda_idx df) df;
              ncols = numeric_cols moneda_idx df_clean
          in (case getcol ''Tipo'' df_clean of
                None \<Rightarrow> Inl (KeyError ''Tipo'')
              | Some tipo \<Rightarrow>
                  (case scale_loop fp (map is_nota_credito (cells tipo)) ncols df_clean of
                     Inl e \<Rightarrow> Inl e
                   | Inr df_scaled \<Rightarrow>
                       (case format_fecha df_scaled of
                          Inl e \<Rightarrow> Inl e
                        | Inr df_dated \<Rightarrow> Inr (append_totals fp ncols df_dated)))))"

text \<open>
  The columns \<^verbatim>\<open>drop\<close> leaves when labels are distinct: all columns up to the marker at
  position \<open>m\<close>, and of the later ones those that are neither all empty nor all zero.
\<close>

definition retained :: "nat \<Rightarrow> frame \<Rightarrow> frame" where
  "retained m df = take (Suc m) df @ filter (\<lambda>c. \<not> (isna_all c \<or> eq0_all c)) (drop (Suc m) df)"

section \<open>\<^verbatim>\<open>ExcelProcessor.detect_month\<close>\<close>

subsection \<open>Parsing a date text\<close>

text \<open>
  \<^verbatim>\<open>pd.to_datetime(col, format='%d/%m/%Y', errors='coerce')\<close>. The whole text has to match
  day, month and year separated by slashes: the day as \<^verbatim>\<open>3[0-1]|[1-2]\d|0[1-9]|[1-9]| [1-9]\<close>,
  the month as \<^verbatim>\<open>1[0-2]|0[1-9]|[1-9]\<close>, the year as four digits; the three numbers have to
  be a date of the calendar within the range of a nanosecond timestamp (22 September 1677 to
  11 April 2262). Anything else becomes \<^verbatim>\<open>NaT\<close>.
\<close>

definition is_digit :: "char \<Rightarrow> bool" where
  "is_digit c = (c \<in> set ''0123456789'')"

definition digit_val :: "char \<Rightarrow> nat" where
  "digit_val c = of_char c - 48"

definition number_of :: "string \<Rightarrow> nat" where
  "number_of s = foldl (\<lambda>n c. 10 * n + digit_val c) 0 s"

fun split_on :: "char \<Rightarrow> string \<Rightarrow> string list" where
  "split_on sep [] = [[]]"
| "split_on sep (c # s) =
     (if c = sep then [] # split_on sep s
      else (case split_on sep s of
              [] \<Rightarrow> [[c]]
            | w # ws \<Rightarrow> (c # w) # ws))"

fun day_field :: "string \<Rightarrow> nat option" where
  "day_field [a] = (if a \<in> set ''123456789'' then Some (digit_val a) else None)"
| "day_field [a, b] =
     (if (a = CHR ''3'' \<and> b \<in> set ''01'') \<or> (a \<in> set ''12'' \<and> is_digit b) \<or>
         (a = CHR ''0'' \<and> b \<in> set ''123456789'')
      then Some (number_of [a, b])
      else if a = CHR '' '' \<and> b \<in> set ''123456789'' then Some (digit_val b)
      else None)"
| "day_field _ = None"

fun month_field :: "string \<Rightarrow> nat option" where
  "month_field [a] = (if a \<in> set ''123456789'' then Some (digit_val a) else None)"
| "month_field [a, b] =
     (if (a = CHR ''1'' \<and> b \<in> set ''012'') \<or> (a = CHR ''0'' \<and> b \<in> set ''123456789'')
      then Some (number_of [a, b]) else None)"
| "month_field _ = None"

definition year_field :: "string \<Rightarrow> nat option" where
  "year_field s = (if length s = 4 \<and> list_all is_digit s then Some (number_of s) else None)"

definition is_leap :: "nat \<Rightarrow> bool" where
  "is_leap y = (y mod 4 = 0 \<and> (y mod 100 \<noteq> 0 \<or> y mod 400 = 0))"

definition days_in_month :: "nat \<Rightarrow> nat \<Rightarrow> nat" where
  "days_in_month y m =
     (if m = 2 then (if is_leap y then 29 else 28)
      else if m \<in> {4, 6, 9, 11} then 30 else 31)"

definition in_timestamp_range :: "nat \<Rightarrow> nat \<Rightarrow> nat \<Rightarrow> bool" where
  "in_timestamp_range y m d =
     ((1677 < y \<or> (y = 1677 \<and> (9 < m \<or> (m = 9 \<and> 22 \<le> d)))) \<and>
      (y < 2262 \<or> (y = 2262 \<and> (m < 4 \<or> (m = 4 \<and> d \<le> 11)))))"

definition parse_dmy :: "string \<Rightarrow> (nat \<times> nat \<times> nat) option" where
  "parse_dmy s =
     (case split_on (CHR ''/'') s of
        [ds, ms, ys] \<Rightarrow>
          (case (day_field ds, month_field ms, year_field ys) of
             (Some d, Some m, Some y) \<Rightarrow>
               if d \<le> days_in_month y m \<and> in_timestamp_range y m d then Some (y, m, d)
               else None
           | _ \<Rightarrow> None)
      | _ \<Rightarrow> None)"

text \<open>
  One element of the conversion. In an \<^verbatim>\<open>object\<close> column a date is kept, a text is parsed,
  and the text of a number has no slash, so a number becomes \<^verbatim>\<open>NaT\<close> like an empty cell.
\<close>

fun to_datetime :: "cell \<Rightarrow> cell" where
  "to_datetime (Str s) = (case parse_dmy s of Some (y, m, d) \<Rightarrow> Date y m d | None \<Rightarrow> NaN)"
| "to_datetime (Date y m d) = Date y m d"
| "to_datetime _ = NaN"

subsection \<open>Counting\<close>

text \<open>
  \<^verbatim>\<open>Series.value_counts()\<close> counts the distinct values in the order of their first
  appearance and sorts them by descending count, equal counts staying in that order;
  \<^verbatim>\<open>idxmax()\<close> gives the first label that has the largest count.
\<close>

fun unique :: "nat list \<Rightarrow> nat list" where
  "unique [] = []"
| "unique (x # xs) = x # filter (\<lambda>y. y \<noteq> x) (unique xs)"

definition value_counts :: "nat list \<Rightarrow> (nat \<times> nat) list" where
  "value_counts xs =
     sort_key (\<lambda>(k, n). - int n) (map (\<lambda>k. (k, count_list xs k)) (unique xs))"

fun idxmax_from :: "nat \<times> nat \<Rightarrow> (nat \<times> nat) list \<Rightarrow> nat" where
  "idxmax_from (k, n) [] = k"
| "idxmax_from (k, n) ((k', n') # rest) =
     (if n < n' then idxmax_from (k', n') rest else idxmax_from (k, n) rest)"

definition idxmax :: "(nat \<times> nat) list \<Rightarrow> nat option" where
  "idxmax kv = (case kv of [] \<Rightarrow> None | p # rest \<Rightarrow> Some (idxmax_from p rest))"

text \<open>\<^verbatim>\<open>Series.mode()\<close>: the values of the largest count, sorted ascending.\<close>

definition is_modal :: "nat list \<Rightarrow> nat \<Rightarrow> bool" where
  "is_modal xs k = (\<forall>k' \<in> set xs. count_list xs k' \<le> count_list xs k)"

definition mode :: "nat list \<Rightarrow> nat list" where
  "mode xs = sort (filter (is_modal xs) (unique xs))"

subsection \<open>The predominant month and its year\<close>

fun dates_of :: "cell list \<Rightarrow> (nat \<times> nat \<times> nat) list" where
  "dates_of [] = []"
| "dates_of (Date y m d # xs) = (y, m, d) # dates_of xs"
| "dates_of (_ # xs) = dates_of xs"

definition month_of :: "nat \<times> nat \<times> nat \<Rightarrow> nat" where
  "month_of t = fst (snd t)"

definition year_of :: "nat \<times> nat \<times> nat \<Rightarrow> nat" where
  "year_of t = fst t"

definition msg_no_dates :: string where
  "msg_no_dates = ''No se encontraron fechas v'' @ [CHR 0xE1] @ ''lidas en el archivo''"

text \<open>
  The rows that \<^verbatim>\<open>dropna(subset=['Fecha'])\<close> leaves: an \<^verbatim>\<open>object\<close> column is converted
  first, any other column is taken as it is.
\<close>

definition fecha_after_dropna :: "column \<Rightarrow> cell list" where
  "fecha_after_dropna f =
     filter (\<lambda>x. x \<noteq> NaN)
       (if ctype f = Object then map to_datetime (cells f) else cells f)"

text \<open>
  With no row left the method raises \<^verbatim>\<open>ValueError\<close>. With rows left in a numeric column,
  the \<^verbatim>\<open>.dt\<close> accessor raises \<^verbatim>\<open>AttributeError\<close>. Otherwise the month is
  \<^verbatim>\<open>value_counts().idxmax()\<close> of the months and the year is \<^verbatim>\<open>mode()[0]\<close> of the years of
  the rows of that month.
\<close>

definition detect_month :: "frame \<Rightarrow> error + (nat \<times> nat)" where
  "detect_month df =
     (case getcol ''Fecha'' df of
        None \<Rightarrow> Inl (KeyError ''Fecha'')
      | Some f \<Rightarrow>
          let remaining = fecha_after_dropna f in
          if remaining = [] then Inl (ValueError msg_no_dates)
          else if is_numeric (ctype f) then Inl AttributeError
          else
            let dates = dates_of remaining in
            (case idxmax (value_counts (map month_of dates)) of
               None \<Rightarrow> Inl (ValueError ''attempt to get argmax of an empty sequence'')
             | Some most_common_month \<Rightarrow>
                 let year_series = map year_of (filter (\<lambda>t. month_of t = most_common_month) dates)
                 in (case mode year_series of
                       [] \<Rightarrow> Inl IndexError
                     | year # _ \<Rightarrow> Inr (most_common_month, year))))"

subsection \<open>\<^verbatim>\<open>get_month_name\<close> and \<^verbatim>\<open>process_excel_file\<close>\<close>

fun show_nat_fuel :: "nat \<Rightarrow> nat \<Rightarrow> string" where
  "show_nat_fuel 0 n = [digit n]"
| "show_nat_fuel (Suc k) n = (if n < 10 then [digit n] else show_nat_fuel k (n div 10) @ [digit n])"

definition show_nat :: "nat \<Rightarrow> string" where
  "show_nat n = show_nat_fuel n n"

definition month_names :: "string list" where
  "month_names = [''Enero'', ''Febrero'', ''Marzo'', ''Abril'', ''Mayo'', ''Junio'', ''Julio'',
                  ''Agosto'', ''Septiembre'', ''Octubre'', ''Noviembre'', ''Diciembre'']"

definition get_month_name :: "nat \<Rightarrow> string" where
  "get_month_name month =
     (if 1 \<le> month \<and> month \<le> 12 then month_names ! (month - 1) else show_nat month)"

record process_info =
  res_month :: nat
  res_year :: nat
  res_month_name :: string
  rows_processed :: int
  columns_kept :: nat

text \<open>
  \<^verbatim>\<open>process_excel_file\<close> on the table the file loads to; writing the cleaned table to
  \<^verbatim>\<open>output_path\<close> does not change the record it returns.
\<close>

definition process_excel_file :: "fpu \<Rightarrow> frame \<Rightarrow> error + process_info" where
  "process_excel_file fp df =
     (case detect_month df of
        Inl e \<Rightarrow> Inl e
      | Inr (m, y) \<Rightarrow>
          (case clean_data fp df of
             Inl e \<Rightarrow> Inl e
           | Inr df_clean \<Rightarrow>
               Inr \<lparr>res_month = m, res_year = y, res_month_name = get_month_name m,
                    rows_processed = int (nrows df_clean) - 1,
                    columns_kept = length df_clean\<rparr>))"

subsection \<open>The tie rules as the specification words them\<close>

text \<open>
  The specification breaks a tie between months "by first-encountered in the fixed
  month-order 1..12": of the months with the largest count, the one that comes first in the
  calendar. Between years of the same frequency it asks for "the first mode encountered",
  the smallest year not being guaranteed: of the most frequent years among the rows of the
  month, the one that is met first in the rows. These definitions follow those words, for
  comparison with \<^verbatim>\<open>detect_month\<close>.
\<close>

definition spec_winning_month :: "frame \<Rightarrow> nat option" where
  "spec_winning_month df =
     (case getcol ''Fecha'' df of
        None \<Rightarrow> None
      | Some f \<Rightarrow>
          let months = map month_of (dates_of (fecha_after_dropna f))
          in find (is_modal months) [1..<13])"

definition spec_year :: "frame \<Rightarrow> nat \<Rightarrow> nat option" where
  "spec_year df m =
     (case getcol ''Fecha'' df of
        None \<Rightarrow> None
      | Some f \<Rightarrow>
          let years = map year_of (filter (\<lambda>t. month_of t = m) (dates_of (fecha_after_dropna f)))
          in find (is_modal years) years)"

fun is_date :: "cell \<Rightarrow> bool" where
  "is_date (Date _ _ _) = True"
| "is_date _ = False"

subsection \<open>A valid date as the specification words it\<close>







section \<open>\<^verbatim>\<open>ExcelProcessor.detect_info_from_header\<close>\<close>

text \<open>
  The method reads the first physical row of the file and works on the texts
  \<^verbatim>\<open>str(df_header.iloc[0, col])\<close> of its cells; the row is given here as the list of these
  texts.
\<close>

subsection \<open>Substring search and \<^verbatim>\<open>str.lower\<close>\<close>

definition lower_char :: "char \<Rightarrow> char" where
  "lower_char c =
     (let n = (of_char c :: nat)
      in if (65 \<le> n \<and> n \<le> 90) \<or> (192 \<le> n \<and> n \<le> 222 \<and> n \<noteq> 215)
         then char_of (n + 32) else c)"

definition lower :: "string \<Rightarrow> string" where
  "lower s = map lower_char s"

definition starts_with :: "string \<Rightarrow> string \<Rightarrow> bool" where
  "starts_with p s = (take (length p) s = p)"

text \<open>\<^verbatim>\<open>p in s\<close>.\<close>

fun contains :: "string \<Rightarrow> string \<Rightarrow> bool" where
  "contains p [] = (p = [])"
| "contains p (c # s) = (starts_with p (c # s) \<or> contains p s)"

subsection \<open>The two regular expressions\<close>

text \<open>
  Character classes of \<^verbatim>\<open>re\<close> on text: \<^verbatim>\<open>\s\<close> is white space, \<^verbatim>\<open>\w\<close> is a letter, a digit
  or the underscore, with the letters and numeric signs of the upper half of the 8-bit range.
\<close>

definition is_space :: "char \<Rightarrow> bool" where
  "is_space c =
     (let n = (of_char c :: nat)
      in (9 \<le> n \<and> n \<le> 13) \<or> (28 \<le> n \<and> n \<le> 32) \<or> n = 133 \<or> n = 160)"

definition is_word :: "char \<Rightarrow> bool" where
  "is_word c =
     (let n = (of_char c :: nat)
      in (48 \<le> n \<and> n \<le> 57) \<or> (65 \<le> n \<and> n \<le> 90) \<or> n = 95 \<or> (97 \<le> n \<and> n \<le> 122) \<or>
         n \<in> {170, 178, 179, 181, 185, 186, 188, 189, 190} \<or>
         (192 \<le> n \<and> n \<le> 214) \<or> (216 \<le> n \<and> n \<le> 246) \<or> (248 \<le> n \<and> n \<le> 255))"

definition eleven_digits :: "string \<Rightarrow> string option" where
  "eleven_digits s =
     (if 11 \<le> length s \<and> list_all is_digit (take 11 s) then Some (take 11 s) else None)"

text \<open>
  \<^verbatim>\<open>re.search(r'CUIT\s*[:\-]?\s*(\d{11})', text, re.IGNORECASE)\<close>: the group of the leftmost
  match. After the marker come white space, at most one colon or hyphen, white space again,
  and then the eleven digits.
\<close>

definition after_marker :: "string \<Rightarrow> string option" where
  "after_marker s =
     (let s1 = dropWhile is_space s;
          s2 = (case s1 of
                  [] \<Rightarrow> s1
                | c # r \<Rightarrow> if c = CHR '':'' \<or> c = CHR ''-'' then r else s1)
      in eleven_digits (dropWhile is_space s2))"

definition marker_here :: "string \<Rightarrow> bool" where
  "marker_here s = (lower (take 4 s) = ''cuit'')"

fun cuit_after_marker :: "string \<Rightarrow> string option" where
  "cuit_after_marker [] = None"
| "cuit_after_marker (c # s) =
     (case (if marker_here (c # s) then after_marker (drop 4 (c # s)) else None) of
        Some d \<Rightarrow> Some d
      | None \<Rightarrow> cuit_after_marker s)"

text \<open>
  \<^verbatim>\<open>re.search(r'\b(\d{11})\b', text)\<close>: the leftmost run of eleven digits with a word
  boundary on both sides. The flag says whether the character before is a word character.
\<close>

fun bare_run :: "bool \<Rightarrow> string \<Rightarrow> string option" where
  "bare_run prev [] = None"
| "bare_run prev (c # s) =
     (if \<not> prev \<and> eleven_digits (c # s) \<noteq> None \<and>
         (case drop 11 (c # s) of [] \<Rightarrow> True | d # _ \<Rightarrow> \<not> is_word d)
      then eleven_digits (c # s)
      else bare_run (is_word c) s)"

definition cuit_bare :: "string \<Rightarrow> string option" where
  "cuit_bare s = bare_run False s"

subsection \<open>The method\<close>

text \<open>
  The banner is the first cell, unless that cell names neither \<^verbatim>\<open>comprobantes\<close> nor
  \<^verbatim>\<open>cuit\<close>: then it is the first of the first five cells that does, if there is one.
\<close>

definition names_banner :: "string \<Rightarrow> bool" where
  "names_banner s = (contains ''comprobantes'' (lower s) \<or> contains ''cuit'' (lower s))"

definition header_text :: "string list \<Rightarrow> string" where
  "header_text row =
     (if names_banner (hd row) then hd row
      else (case find names_banner (take 5 row) of
              None \<Rightarrow> hd row
            | Some cell_value \<Rightarrow> cell_value))"

definition detect_tipo :: "string \<Rightarrow> string option" where
  "detect_tipo text =
     (if contains ''emitidos'' (lower text) then Some ''ventas''
      else if contains ''recibidos'' (lower text) then Some ''compras''
      else None)"

definition detect_cuit :: "string \<Rightarrow> string option" where
  "detect_cuit text =
     (case cuit_after_marker text of
        Some d \<Rightarrow> Some d
      | None \<Rightarrow> cuit_bare text)"

definition msg_header :: "string \<Rightarrow> string" where
  "msg_header text =
     ''No se pudo detectar CUIT o tipo en el encabezado.'' @ [CHR 0x0A] @
     ''Encabezado encontrado: '' @ [CHR 0x27] @ text @ [CHR 0x27, CHR 0x0A] @
     ''Aseg'' @ [CHR 0xFA] @ ''rese de que la primera fila contenga algo como:'' @ [CHR 0x0A] @
     [CHR 0x27] @ ''Mis Comprobantes Emitidos - CUIT 30716820080'' @ [CHR 0x27]"

record header_info =
  info_cuit :: string
  info_tipo :: string

definition detect_info_from_header :: "string list \<Rightarrow> error + header_info" where
  "detect_info_from_header row =
     (if row = [] then Inl IndexError
      else
        let text = header_text row in
        (case (detect_cuit text, detect_tipo text) of
           (Some c, Some t) \<Rightarrow> Inr \<lparr>info_cuit = c, info_tipo = t\<rparr>
         | _ \<Rightarrow> Inl (ValueError (msg_header text))))"

subsection \<open>What the two searches look for\<close>

text \<open>
  The two patterns, said without a search, for comparison with the searches above. A marked
  run is a run of eleven digits that follows the marker \<^verbatim>\<open>CUIT\<close>, in any case, with nothing
  in between but white space and at most one colon or hyphen. A bounded run is a run of
  eleven digits with no word character next to it.
\<close>

definition marked_run :: "string \<Rightarrow> string \<Rightarrow> bool" where
  "marked_run text d =
     (\<exists>pre mk ws1 sep ws2 post.
        text = pre @ mk @ ws1 @ sep @ ws2 @ d @ post \<and> lower mk = ''cuit'' \<and>
        list_all is_space ws1 \<and> (sep = [] \<or> sep = '':'' \<or> sep = ''-'') \<and>
        list_all is_space ws2 \<and> length d = 11 \<and> list_all is_digit d)"

definition bounded_run :: "string \<Rightarrow> string \<Rightarrow> bool" where
  "bounded_run text d =
     (\<exists>pre post.
        text = pre @ d @ post \<and> length d = 11 \<and> list_all is_digit d \<and>
        (pre = [] \<or> \<not> is_word (last pre)) \<and> (post = [] \<or> \<not> is_word (hd post)))"

section \<open>The processor object and the tables it refers to\<close>

text \<open>
  A pandas table is a mutable object, and \<^verbatim>\<open>self.df\<close> is a reference to one. The store
  holds the table objects; an object is named by its position, a new object is appended.
  In \<^verbatim>\<open>clean_data\<close> the statements \<^verbatim>\<open>self.df.copy()\<close>, \<^verbatim>\<open>df_clean.drop(...)\<close> and
  \<^verbatim>\<open>pd.concat(...)\<close> create objects, while \<^verbatim>\<open>df_clean[col] = ...\<close>,
  \<^verbatim>\<open>df_clean.loc[...] = ...\<close> and \<^verbatim>\<open>df_clean['Fecha'] = ...\<close> change the object that
  \<^verbatim>\<open>df_clean\<close> names at that moment.
\<close>

type_synonym store = "frame list"

record processor =
  self_file_path :: string
  self_df :: "nat option"
  self_month_detected :: "(nat \<times> nat) option"

definition alloc :: "frame \<Rightarrow> store \<Rightarrow> nat \<times> store" where
  "alloc fr st = (length st, st @ [fr])"

text \<open>
  \<^verbatim>\<open>read_excel\<close>: the files are given by the table each path loads to, the banner row
  skipped; a path that loads to nothing raises.
\<close>

definition read_excel ::
  "(string \<rightharpoonup> frame) \<Rightarrow> processor \<Rightarrow> store \<Rightarrow> (error + nat) \<times> processor \<times> store" where
  "read_excel fs self st =
     (case fs (self_file_path self) of
        None \<Rightarrow> (Inl FileNotFoundError, self, st)
      | Some fr \<Rightarrow>
          (case alloc fr st of (a, st') \<Rightarrow> (Inr a, self\<lparr>self_df := Some a\<rparr>, st')))"

text \<open>The loop over \<^verbatim>\<open>numeric_cols\<close>, each pass written into the object at \<open>a\<close>.\<close>

fun scale_loop_obj :: "fpu \<Rightarrow> bool list \<Rightarrow> string list \<Rightarrow> nat \<Rightarrow> store \<Rightarrow> error option \<times> store" where
  "scale_loop_obj fp is_nc [] a st = (None, st)"
| "scale_loop_obj fp is_nc (col # cols) a st =
     (case scale_step fp is_nc col (st ! a) of
        Inl e \<Rightarrow> (Some e, st)
      | Inr fr \<Rightarrow> scale_loop_obj fp is_nc cols a (st[a := fr]))"

text \<open>
  The method \<^verbatim>\<open>clean_data\<close> with its objects. It returns the reference to the cleaned
  table, or the error, with the processor and the store as the call leaves them.
\<close>

definition ExcelProcessor_clean_data ::
  "fpu \<Rightarrow> (string \<rightharpoonup> frame) \<Rightarrow> processor \<Rightarrow> store \<Rightarrow> (error + nat) \<times> processor \<times> store" where
  "ExcelProcessor_clean_data fp fs self st =
     (case (case self_df self of
              None \<Rightarrow> read_excel fs self st
            | Some a \<Rightarrow> (Inr a, self, st)) of
        (Inl e, self1, st1) \<Rightarrow> (Inl e, self1, st1)
      | (Inr a0, self1, st1) \<Rightarrow>
          (case alloc (st1 ! a0) st1 of (a1, st2) \<Rightarrow>
             (case get_loc ''Moneda'' (st2 ! a1) of
                None \<Rightarrow> (Inl (ValueError msg_no_moneda), self1, st2)
              | Some moneda_idx \<Rightarrow>
                  (case alloc (drop_columns (columns_to_drop moneda_idx (st2 ! a1)) (st2 ! a1)) st2
                   of (a2, st3) \<Rightarrow>
                     let ncols = numeric_cols moneda_idx (st3 ! a2) in
                     (case getcol ''Tipo'' (st3 ! a2) of
                        None \<Rightarrow> (Inl (KeyError ''Tipo''), self1, st3)
                      | Some tipo \<Rightarrow>
                          (case scale_loop_obj fp (map is_nota_credito (cells tipo)) ncols a2 st3 of
                             (Some e, st4) \<Rightarrow> (Inl e, self1, st4)
                           | (None, st4) \<Rightarrow>
                               (case format_fecha (st4 ! a2) of
                                  Inl e \<Rightarrow> (Inl e, self1, st4)
                                | Inr fr \<Rightarrow>
                                    (case alloc (append_totals fp ncols fr) (st4[a2 := fr])
                                     of (a3, st6) \<Rightarrow> (Inr a3, self1, st6)))))))))"

text \<open>What a call returned, read from the store: the table behind the reference.\<close>

definition returned :: "error + nat \<Rightarrow> store \<Rightarrow> error + frame" where
  "returned r st = (case r of Inl e \<Rightarrow> Inl e | Inr a \<Rightarrow> Inr (st ! a))"

subsection \<open>Scaling once, as the specification words it\<close>

text \<open>
  The specification asks that no output has an amount multiplied by the exchange rate more
  than once: in every numeric column after the marker that the output retains, the cell of
  a data row is the loaded amount times the loaded rate, or the negative of that product.
  This definition follows those words, for comparison with \<^verbatim>\<open>clean_data\<close>.
\<close>

definition spec_scaled_once :: "fpu \<Rightarrow> frame \<Rightarrow> frame \<Rightarrow> bool" where
  "spec_scaled_once fp df out =
     (case (get_loc ''Moneda'' df, getcol ''Tipo Cambio'' df) of
        (Some m, Some rate) \<Rightarrow>
          list_all
            (\<lambda>c. case getcol (cname c) out of
                   None \<Rightarrow> True
                 | Some oc \<Rightarrow>
                     \<not> is_numeric (ctype c) \<or>
                     list_all
                       (\<lambda>i. cells oc ! i = mul_cell fp (cells c ! i) (cells rate ! i) \<or>
                            cells oc ! i = neg_cell (mul_cell fp (cells c ! i) (cells rate ! i)))
                       [0..<nrows df])
            (drop (Suc m) df)
      | _ \<Rightarrow> True)"

section \<open>The remote store: \<^verbatim>\<open>DriveHandler\<close>\<close>

text \<open>
  Google Drive, as far as \<^verbatim>\<open>Utils/drive_handler.py\<close> uses it: the items of the drive in the
  order in which a listing returns them, each with an id, a name, a MIME type, its parent
  folders, the trash flag and, for a spreadsheet, its workbook. A workbook is the list of its
  sheets, a sheet is a name with rows of cells; fonts and alignment are left out. Ids are
  numbers, and a new item gets the next free one. Authentication is taken to succeed.
\<close>

type_synonym sheet = "cell list list"

type_synonym workbook = "(string \<times> sheet) list"

datatype mime = FolderMime | XlsxMime | GoogleSheetMime

record item =
  item_id :: nat
  item_name :: string
  item_mime :: mime
  item_parents :: "nat list"
  item_trashed :: bool
  item_content :: workbook

record drive =
  items :: "item list"
  next_id :: nat

record handler =
  root_folder_id :: "nat option"

definition ROOT_FOLDER_NAME :: string where
  "ROOT_FOLDER_NAME = ''Clientes Libros Iva''"

subsection \<open>Requests of the Drive API\<close>

text \<open>\<^verbatim>\<open>files().list(q=...)\<close>: the items that satisfy the query.\<close>

definition files_list :: "(item \<Rightarrow> bool) \<Rightarrow> drive \<Rightarrow> item list" where
  "files_list q d = filter q (items d)"

text \<open>\<^verbatim>\<open>files().get(fileId=...)\<close>.\<close>

definition files_get :: "nat \<Rightarrow> drive \<Rightarrow> item option" where
  "files_get fid d = find (\<lambda>i. item_id i = fid) (items d)"

text \<open>\<^verbatim>\<open>files().create(body=..., media_body=...)\<close>: a new item at the end, with a fresh id.\<close>

definition files_create :: "string \<Rightarrow> nat list \<Rightarrow> mime \<Rightarrow> workbook \<Rightarrow> drive \<Rightarrow> nat \<times> drive" where
  "files_create name parents mt body d =
     (next_id d,
      d\<lparr>items := items d @
             [\<lparr>item_id = next_id d, item_name = name, item_mime = mt, item_parents = parents,
               item_trashed = False, item_content = body\<rparr>],
        next_id := Suc (next_id d)\<rparr>)"

text \<open>\<^verbatim>\<open>files().update(fileId=..., media_body=...)\<close>: new content for the item.\<close>

definition files_update :: "nat \<Rightarrow> workbook \<Rightarrow> drive \<Rightarrow> drive" where
  "files_update fid body d =
     d\<lparr>items := map (\<lambda>i. if item_id i = fid then i\<lparr>item_content := body\<rparr> else i) (items d)\<rparr>"

text \<open>\<^verbatim>\<open>files().delete(fileId=...)\<close>.\<close>

definition files_delete :: "nat \<Rightarrow> drive \<Rightarrow> drive" where
  "files_delete fid d = d\<lparr>items := filter (\<lambda>i. item_id i \<noteq> fid) (items d)\<rparr>"

subsection \<open>Folders\<close>

definition find_folder :: "string \<Rightarrow> nat option \<Rightarrow> drive \<Rightarrow> nat option" where
  "find_folder folder_name parent_id d =
     (case files_list (\<lambda>i. item_name i = folder_name \<and> item_mime i = FolderMime \<and>
                           \<not> item_trashed i \<and>
                           (case parent_id of None \<Rightarrow> True | Some p \<Rightarrow> p \<in> set (item_parents i))) d
      of [] \<Rightarrow> None | i # _ \<Rightarrow> Some (item_id i))"

definition msg_no_root :: string where
  "msg_no_root = ''No se encontr'' @ [CHR 0xF3] @ '' la carpeta ''
                 @ [CHR 0x27] @ ROOT_FOLDER_NAME @ [CHR 0x27] @ '' en Drive''"

definition get_root_folder_id :: "handler \<Rightarrow> drive \<Rightarrow> (error + nat) \<times> handler" where
  "get_root_folder_id h d =
     (case root_folder_id h of
        Some r \<Rightarrow> (Inr r, h)
      | None \<Rightarrow>
          (case find_folder ROOT_FOLDER_NAME None d of
             None \<Rightarrow> (Inl (Exception msg_no_root), h)
           | Some r \<Rightarrow> (Inr r, h\<lparr>root_folder_id := Some r\<rparr>)))"

record client_structure =
  client_id :: nat
  ventas_id :: "nat option"
  compras_id :: "nat option"

definition msg_no_client :: "string \<Rightarrow> string" where
  "msg_no_client client_name =
     ''No se encontr'' @ [CHR 0xF3] @ '' el cliente '' @ [CHR 0x27] @ client_name @ [CHR 0x27]"

definition get_client_structure ::
  "string \<Rightarrow> handler \<Rightarrow> drive \<Rightarrow> (error + client_structure) \<times> handler" where
  "get_client_structure client_name h d =
     (case get_root_folder_id h d of
        (Inl e, h') \<Rightarrow> (Inl e, h')
      | (Inr root_id, h') \<Rightarrow>
          (case find_folder client_name (Some root_id) d of
             None \<Rightarrow> (Inl (Exception (msg_no_client client_name)), h')
           | Some cid \<Rightarrow>
               (Inr \<lparr>client_id = cid,
                     ventas_id = find_folder ''Ventas'' (Some cid) d,
                     compras_id = find_folder ''Compras'' (Some cid) d\<rparr>, h')))"

subsection \<open>The workbook of a year\<close>

definition upper_char :: "char \<Rightarrow> char" where
  "upper_char c =
     (let n = (of_char c :: nat)
      in if (97 \<le> n \<and> n \<le> 122) \<or> (224 \<le> n \<and> n \<le> 254 \<and> n \<noteq> 247)
         then char_of (n - 32) else c)"

text \<open>\<^verbatim>\<open>str.capitalize\<close>, for texts whose first character has an 8-bit capital.\<close>

definition capitalize :: "string \<Rightarrow> string" where
  "capitalize s = (case s of [] \<Rightarrow> [] | c # r \<Rightarrow> upper_char c # lower r)"

text \<open>\<^verbatim>\<open>f"Libro Iva {tipo.capitalize()} {year} {client_name}.xlsx"\<close>.\<close>

definition year_filename :: "string \<Rightarrow> string \<Rightarrow> nat \<Rightarrow> string" where
  "year_filename client_name tp yr =
     ''Libro Iva '' @ capitalize tp @ '' '' @ show_nat yr @ '' '' @ client_name @ ''.xlsx''"

definition msg_no_folder :: "string \<Rightarrow> string \<Rightarrow> string" where
  "msg_no_folder tp client_name =
     ''No se encontr'' @ [CHR 0xF3] @ '' la carpeta '' @ [CHR 0x27] @ tp @ [CHR 0x27] @
     '' para el cliente '' @ [CHR 0x27] @ client_name @ [CHR 0x27]"

definition year_folder :: "string \<Rightarrow> client_structure \<Rightarrow> nat option" where
  "year_folder tp structure =
     (if lower tp = ''ventas'' then ventas_id structure else compras_id structure)"

record year_file =
  yf_exists :: bool
  yf_file_id :: "nat option"
  yf_folder_id :: nat
  yf_filename :: string

definition check_year_file_exists ::
  "string \<Rightarrow> string \<Rightarrow> nat \<Rightarrow> handler \<Rightarrow> drive \<Rightarrow> (error + year_file) \<times> handler" where
  "check_year_file_exists client_name tp yr h d =
     (case get_client_structure client_name h d of
        (Inl e, h') \<Rightarrow> (Inl e, h')
      | (Inr structure, h') \<Rightarrow>
          (case year_folder tp structure of
             None \<Rightarrow> (Inl (Exception (msg_no_folder tp client_name)), h')
           | Some folder_id \<Rightarrow>
               let filename = year_filename client_name tp yr;
                   found = files_list (\<lambda>i. item_name i = filename \<and>
                                            folder_id \<in> set (item_parents i) \<and>
                                            \<not> item_trashed i) d
               in (Inr \<lparr>yf_exists = (found \<noteq> []),
                        yf_file_id = (case found of [] \<Rightarrow> None | i # _ \<Rightarrow> Some (item_id i)),
                        yf_folder_id = folder_id,
                        yf_filename = filename\<rparr>, h')))"

text \<open>\<^verbatim>\<open>upload_file\<close>: a new Excel file in the folder.\<close>

definition upload_file :: "workbook \<Rightarrow> nat \<Rightarrow> string \<Rightarrow> drive \<Rightarrow> nat \<times> drive" where
  "upload_file body folder_id file_name d = files_create file_name [folder_id] XlsxMime body d"

definition temp_sheet :: "string \<times> sheet" where
  "temp_sheet =
     (''_temp'',
      [[Str (''Archivo temporal - Esta pesta'' @ [CHR 0xF1] @ ''a se eliminar'' @ [CHR 0xE1] @
             '' al agregar datos'')]])"

text \<open>
  \<^verbatim>\<open>create_year_file\<close>: a workbook with the single sheet \<^verbatim>\<open>_temp\<close>, uploaded under the name
  of the year.
\<close>

definition create_year_file ::
  "string \<Rightarrow> string \<Rightarrow> nat \<Rightarrow> handler \<Rightarrow> drive \<Rightarrow> (error + nat) \<times> handler \<times> drive" where
  "create_year_file client_name tp yr h d =
     (case get_client_structure client_name h d of
        (Inl e, h') \<Rightarrow> (Inl e, h', d)
      | (Inr structure, h') \<Rightarrow>
          (case year_folder tp structure of
             None \<Rightarrow> (Inl (Exception (msg_no_folder tp client_name)), h', d)
           | Some folder_id \<Rightarrow>
               (case upload_file [temp_sheet] folder_id (year_filename client_name tp yr) d of
                  (file_id, d') \<Rightarrow> (Inr file_id, h', d'))))"

text \<open>
  \<^verbatim>\<open>download_file\<close>: the workbook of the item, exported when the item is a Google
  spreadsheet; an unknown id and a folder make the request fail.
\<close>

definition download_file :: "nat \<Rightarrow> drive \<Rightarrow> error + workbook" where
  "download_file file_id d =
     (case files_get file_id d of
        None \<Rightarrow> Inl HttpError
      | Some i \<Rightarrow> if item_mime i = FolderMime then Inl HttpError else Inr (item_content i))"

text \<open>
  \<^verbatim>\<open>update_file\<close>: a Google spreadsheet is deleted and, when it has a parent, uploaded
  anew as an Excel file under its name in its first parent; any other item gets the new
  content.
\<close>

definition update_file :: "nat \<Rightarrow> workbook \<Rightarrow> drive \<Rightarrow> (error + nat option) \<times> drive" where
  "update_file file_id body d =
     (case files_get file_id d of
        None \<Rightarrow> (Inl HttpError, d)
      | Some i \<Rightarrow>
          if item_mime i = GoogleSheetMime then
            (let d1 = files_delete file_id d in
             case item_parents i of
               [] \<Rightarrow> (Inr None, d1)
             | p # _ \<Rightarrow>
                 (case upload_file body p (item_name i) d1 of
                    (new_file_id, d2) \<Rightarrow> (Inr (Some new_file_id), d2)))
          else (Inr (Some file_id), files_update file_id body d))"

subsection \<open>A drive that is keyed by name\<close>



text \<open>The query of \<^verbatim>\<open>check_year_file_exists\<close> for a file name in a folder.\<close>

definition year_query :: "string \<Rightarrow> nat \<Rightarrow> item \<Rightarrow> bool" where
  "year_query filename folder_id i =
     (item_name i = filename \<and> folder_id \<in> set (item_parents i) \<and> \<not> item_trashed i)"

section \<open>Merging a month: \<^verbatim>\<open>add_sheet_to_workbook\<close> and \<^verbatim>\<open>process_file\<close>\<close>

subsection \<open>Temporary files\<close>

text \<open>
  The local files of a request: the uploaded file, given by the table it loads to (or
  nothing, when it is no readable workbook), and the downloaded copy of the year's workbook.
  \<^verbatim>\<open>NamedTemporaryFile\<close> takes the next free name.
\<close>

datatype local_file = UploadFile "frame option" | BookFile workbook | EmptyFile

type_synonym tmpfs = "nat \<Rightarrow> local_file option"

definition unlink :: "nat list \<Rightarrow> tmpfs \<Rightarrow> tmpfs" where
  "unlink paths fs = foldr (\<lambda>p f. f(p := None)) paths fs"

subsection \<open>\<^verbatim>\<open>ExcelProcessor.add_sheet_to_workbook\<close>\<close>

text \<open>
  \<^verbatim>\<open>dataframe_to_rows(df, index=False, header=True)\<close>: the row of the column labels, then
  the rows of the table.
\<close>

definition dataframe_to_rows :: "frame \<Rightarrow> sheet" where
  "dataframe_to_rows df =
     map (\<lambda>c. Str (cname c)) df # map (\<lambda>i. map (\<lambda>c. cells c ! i) df) [0..<nrows df]"

text \<open>
  \<^verbatim>\<open>openpyxl.load_workbook\<close>, with the \<^verbatim>\<open>FileNotFoundError\<close> branch of the method: a missing
  file gives a workbook without sheets, and a file that is no workbook makes the call raise
  \<^verbatim>\<open>BadZipFile\<close>.
\<close>

definition load_workbook :: "nat \<Rightarrow> tmpfs \<Rightarrow> error + workbook" where
  "load_workbook workbook_path fs =
     (case fs workbook_path of
        None \<Rightarrow> Inr []
      | Some (BookFile wb) \<Rightarrow> Inr wb
      | Some _ \<Rightarrow> Inl BadZipFile)"

definition sheetnames :: "workbook \<Rightarrow> string list" where
  "sheetnames wb = map fst wb"

text \<open>
  \<^verbatim>\<open>wb.create_sheet(title=...)\<close> does not always take the title it is given. An empty title
  becomes \<^verbatim>\<open>Sheet\<close>; a title with one of the characters \<^verbatim>\<open>\ * ? : / [ ]\<close> raises
  \<^verbatim>\<open>ValueError\<close>; and \<^verbatim>\<open>avoid_duplicate_name\<close> changes a title that some sheet of the
  workbook already has, compared without regard to case: it searches the names, joined by
  commas, for the title followed by digits (\<^verbatim>\<open>re.findall\<close> of the escaped title, \<^verbatim>\<open>(\d*)\<close>
  and \<^verbatim>\<open>,?\<close>, ignoring case) and appends the highest number found plus one.
\<close>

definition INVALID_TITLE_CHARS :: string where
  "INVALID_TITLE_CHARS = [CHR 0x5C, CHR ''*'', CHR ''?'', CHR '':'', CHR ''/'', CHR ''['', CHR '']'']"

fun join_names :: "string list \<Rightarrow> string" where
  "join_names [] = []"
| "join_names [n] = n"
| "join_names (n # ns) = n @ '','' @ join_names ns"

text \<open>What is left of the text after a match: the title, the digits and one comma.\<close>

definition after_match :: "string \<Rightarrow> string \<Rightarrow> string" where
  "after_match v s =
     (case dropWhile is_digit (drop (length v) s) of
        [] \<Rightarrow> []
      | c # r \<Rightarrow> if c = CHR '','' then r else c # r)"

function find_counts :: "string \<Rightarrow> string \<Rightarrow> string list" where
  "find_counts v [] = []"
| "find_counts v (c # s) =
     (if v \<noteq> [] \<and> lower (take (length v) (c # s)) = lower v
      then takeWhile is_digit (drop (length v) (c # s)) # find_counts v (after_match v (c # s))
      else find_counts v s)"
  by pat_completeness auto

termination
proof (relation "measure (\<lambda>(v, s). length s)")
  show "wf (measure (\<lambda>(v, s). length s))" by simp
next
  fix v :: string and c s
  assume "v \<noteq> [] \<and> lower (take (length v) (c # s)) = lower v"
  then have "length (drop (length v) (c # s)) < length (c # s)" by (cases v) auto
  moreover have "length (dropWhile is_digit (drop (length v) (c # s)))
                 \<le> length (drop (length v) (c # s))"
    by (rule length_dropWhile_le)
  moreover have "length (after_match v (c # s))
                 \<le> length (dropWhile is_digit (drop (length v) (c # s)))"
    by (simp add: after_match_def split: list.splits)
  ultimately show "((v, after_match v (c # s)), (v, c # s)) \<in> measure (\<lambda>(v, s). length s)"
    by simp
next
  fix v :: string and c s
  show "((v, s), (v, c # s)) \<in> measure (\<lambda>(v, s). length s)" by simp
qed

definition avoid_duplicate_name :: "string list \<Rightarrow> string \<Rightarrow> string" where
  "avoid_duplicate_name names v =
     (if list_ex (\<lambda>n. lower n = lower v) names then
        (let matches = find_counts v (join_names names);
             counts = map number_of (filter (\<lambda>idx. idx \<noteq> []) matches)
         in if matches \<noteq> [] then v @ show_nat (foldr max counts 0 + 1) else v)
      else v)"

definition new_title :: "string \<Rightarrow> string list \<Rightarrow> error + string" where
  "new_title title names =
     (let v = (if title = [] then ''Sheet'' else title) in
      case find (\<lambda>c. c \<in> set INVALID_TITLE_CHARS) v of
        Some c \<Rightarrow> Inl (ValueError (''Invalid character '' @ [c] @ '' found in sheet title''))
      | None \<Rightarrow> Inr (avoid_duplicate_name names v))"

text \<open>
  The method with the table passed in, as \<^verbatim>\<open>process_file\<close> calls it. It answers
  \<^verbatim>\<open>"exists"\<close> before it changes anything; otherwise it removes the sheet \<^verbatim>\<open>_temp\<close>, creates
  the new sheet under the title \<^verbatim>\<open>create_sheet\<close> gives it, writes the rows and saves the
  workbook to its path.
\<close>

definition add_sheet_to_workbook ::
  "nat \<Rightarrow> string \<Rightarrow> frame \<Rightarrow> tmpfs \<Rightarrow> (error + string) \<times> tmpfs" where
  "add_sheet_to_workbook workbook_path sheet_name df fs =
     (case load_workbook workbook_path fs of
        Inl e \<Rightarrow> (Inl e, fs)
      | Inr wb \<Rightarrow>
          if sheet_name \<in> set (sheetnames wb) then (Inr ''exists'', fs)
          else
            let wb1 = filter (\<lambda>s. fst s \<noteq> ''_temp'') wb in
            (case new_title sheet_name (sheetnames wb1) of
               Inl e \<Rightarrow> (Inl e, fs)
             | Inr title \<Rightarrow>
                 (Inr ''success'',
                  fs(workbook_path := Some (BookFile (wb1 @ [(title, dataframe_to_rows df)]))))))"

subsection \<open>\<^verbatim>\<open>process_file\<close>\<close>

record request =
  req_file :: "frame option"
  req_client :: string
  req_tipo :: string
  req_year :: nat
  req_month :: int
  req_month_name :: string
  create_if_not_exists :: bool

record world =
  w_handler :: handler
  w_drive :: drive
  w_tmp :: tmpfs
  w_next_tmp :: nat

datatype detail = Text string | OfException error

record processed =
  p_message :: string
  p_rows_processed :: int
  p_client :: string
  p_tipo :: string
  p_year :: nat
  p_month :: string

datatype response =
    NeedsConfirmation string
  | Processed processed
  | HTTPException nat detail

definition msg_needs_confirmation :: "string \<Rightarrow> string" where
  "msg_needs_confirmation filename =
     ''El archivo '' @ [CHR 0x27] @ filename @ [CHR 0x27] @
     '' no existe. '' @ [CHR 0xBF] @ ''Desea crearlo?''"

definition msg_sheet_exists :: "string \<Rightarrow> string \<Rightarrow> string" where
  "msg_sheet_exists sheet_name filename =
     ''La pesta'' @ [CHR 0xF1] @ ''a '' @ [CHR 0x27] @ sheet_name @ [CHR 0x27] @
     '' ya existe en el archivo '' @ [CHR 0x27] @ filename @ [CHR 0x27]"

definition msg_processed :: "string \<Rightarrow> string \<Rightarrow> string" where
  "msg_processed sheet_name filename =
     ''Pesta'' @ [CHR 0xF1] @ ''a '' @ [CHR 0x27] @ sheet_name @ [CHR 0x27] @
     '' agregada exitosamente al archivo '' @ [CHR 0x27] @ filename @ [CHR 0x27]"

definition msg_not_excel :: string where
  "msg_not_excel = ''Excel file format cannot be determined, you must specify an engine manually.''"

definition new_tmp :: "local_file \<Rightarrow> world \<Rightarrow> nat \<times> world" where
  "new_tmp content w =
     (w_next_tmp w,
      w\<lparr>w_tmp := (w_tmp w)(w_next_tmp w := Some content), w_next_tmp := Suc (w_next_tmp w)\<rparr>)"

text \<open>
  The \<^verbatim>\<open>except Exception\<close> branch: the temporary files are removed and the error is
  answered with status 500.
\<close>

definition fail_500 :: "error \<Rightarrow> nat list \<Rightarrow> world \<Rightarrow> response \<times> world" where
  "fail_500 e paths w = (HTTPException 500 (OfException e), w\<lparr>w_tmp := unlink paths (w_tmp w)\<rparr>)"

text \<open>
  Steps 5 to 7: the sheet is added to the downloaded copy; \<^verbatim>\<open>"exists"\<close> raises the
  \<^verbatim>\<open>HTTPException\<close> with status 400, which is re-raised as it is; otherwise the copy is
  uploaded, the temporary files are removed and the success is answered.
\<close>

definition merge_sheet ::
  "request \<Rightarrow> frame \<Rightarrow> year_file \<Rightarrow> nat \<Rightarrow> nat \<Rightarrow> nat \<Rightarrow> world \<Rightarrow> response \<times> world" where
  "merge_sheet req df_clean file_check file_id tmp_input downloaded_file w =
     (case add_sheet_to_workbook downloaded_file (req_month_name req) df_clean (w_tmp w) of
        (Inl e, fs) \<Rightarrow> fail_500 e [tmp_input, downloaded_file] (w\<lparr>w_tmp := fs\<rparr>)
      | (Inr result, fs) \<Rightarrow>
          if result = ''exists'' then
            (HTTPException 400
               (Text (msg_sheet_exists (req_month_name req) (yf_filename file_check))),
             w\<lparr>w_tmp := fs\<rparr>)
          else
            (case load_workbook downloaded_file fs of
               Inl e \<Rightarrow> fail_500 e [tmp_input, downloaded_file] (w\<lparr>w_tmp := fs\<rparr>)
             | Inr body \<Rightarrow>
                 (case update_file file_id body (w_drive w) of
                    (Inl e, d) \<Rightarrow>
                      fail_500 e [tmp_input, downloaded_file] (w\<lparr>w_tmp := fs, w_drive := d\<rparr>)
                  | (Inr _, d) \<Rightarrow>
                      (Processed
                         \<lparr>p_message = msg_processed (req_month_name req) (yf_filename file_check),
                          p_rows_processed = int (nrows df_clean) - 1,
                          p_client = req_client req, p_tipo = req_tipo req,
                          p_year = req_year req, p_month = req_month_name req\<rparr>,
                       w\<lparr>w_tmp := unlink [tmp_input, downloaded_file] fs, w_drive := d\<rparr>))))"

text \<open>Step 4: the year's workbook is downloaded to a new temporary file.\<close>

definition fetch_and_merge ::
  "request \<Rightarrow> frame \<Rightarrow> year_file \<Rightarrow> nat \<Rightarrow> nat \<Rightarrow> world \<Rightarrow> response \<times> world" where
  "fetch_and_merge req df_clean file_check file_id tmp_input w =
     (case new_tmp EmptyFile w of (downloaded_file, w1) \<Rightarrow>
        (case download_file file_id (w_drive w1) of
           Inl e \<Rightarrow> fail_500 e [tmp_input, downloaded_file] w1
         | Inr wb \<Rightarrow>
             merge_sheet req df_clean file_check file_id tmp_input downloaded_file
               (w1\<lparr>w_tmp := (w_tmp w1)(downloaded_file := Some (BookFile wb))\<rparr>)))"

text \<open>
  The whole request. Steps 1 and 2 save and clean the upload; step 3 looks for the year's
  workbook and, when it is absent, either answers that a confirmation is needed or creates
  it.
\<close>

definition process_file :: "fpu \<Rightarrow> request \<Rightarrow> world \<Rightarrow> response \<times> world" where
  "process_file fp req w =
     (case new_tmp (UploadFile (req_file req)) w of (tmp_input, w1) \<Rightarrow>
        (case req_file req of
           None \<Rightarrow> fail_500 (ValueError msg_not_excel) [tmp_input] w1
         | Some df \<Rightarrow>
             (case clean_data fp df of
                Inl e \<Rightarrow> fail_500 e [tmp_input] w1
              | Inr df_clean \<Rightarrow>
                  (case check_year_file_exists (req_client req) (req_tipo req) (req_year req)
                          (w_handler w1) (w_drive w1) of
                     (Inl e, h) \<Rightarrow> fail_500 e [tmp_input] (w1\<lparr>w_handler := h\<rparr>)
                   | (Inr file_check, h) \<Rightarrow>
                       let w2 = w1\<lparr>w_handler := h\<rparr> in
                       if \<not> yf_exists file_check then
                         if \<not> create_if_not_exists req then
                           (NeedsConfirmation (msg_needs_confirmation (yf_filename file_check)), w2)
                         else
                           (case create_year_file (req_client req) (req_tipo req) (req_year req)
                                   (w_handler w2) (w_drive w2) of
                              (Inl e, h', d') \<Rightarrow>
                                fail_500 e [tmp_input] (w2\<lparr>w_handler := h', w_drive := d'\<rparr>)
                            | (Inr file_id, h', d') \<Rightarrow>
                                fetch_and_merge req df_clean
                                  (file_check\<lparr>yf_file_id := Some file_id, yf_exists := True\<rparr>)
                                  file_id tmp_input (w2\<lparr>w_handler := h', w_drive := d'\<rparr>))
                       else
                         (case yf_file_id file_check of
                            None \<Rightarrow> fail_500 HttpError [tmp_input] w2
                          | Some file_id \<Rightarrow>
                              fetch_and_merge req df_clean file_check file_id tmp_input w2)))))"

section \<open>Example inputs\<close>

text \<open>
  An arithmetic for the examples: the one in which no operation rounds. \<^verbatim>\<open>float64\<close> agrees
  with it as long as every result is representable, which holds for the numbers below. The
  sum adds from left to right, starting from \<^verbatim>\<open>0.0\<close>.
\<close>

fun f_val :: "float64 \<Rightarrow> rat" where
  "f_val (Finite r) = r"
| "f_val _ = 0"

fun f_inf :: "float64 \<Rightarrow> bool" where
  "f_inf PosInf = True"
| "f_inf NegInf = True"
| "f_inf _ = False"

fun f_signbit :: "float64 \<Rightarrow> bool" where
  "f_signbit (Finite r) = (r < 0)"
| "f_signbit NegZero = True"
| "f_signbit PosInf = False"
| "f_signbit NegInf = True"

definition unrounded_mul :: "float64 \<Rightarrow> float64 \<Rightarrow> float64 option" where
  "unrounded_mul x y =
     (if (f_inf x \<and> f_eq0 y) \<or> (f_eq0 x \<and> f_inf y) then None
      else if f_inf x \<or> f_inf y
        then Some (if f_signbit x = f_signbit y then PosInf else NegInf)
      else if f_eq0 x \<or> f_eq0 y
        then Some (if f_signbit x = f_signbit y then Finite 0 else NegZero)
      else Some (Finite (f_val x * f_val y)))"

definition unrounded_add :: "float64 \<Rightarrow> float64 \<Rightarrow> float64 option" where
  "unrounded_add x y =
     (if (x = PosInf \<and> y = NegInf) \<or> (x = NegInf \<and> y = PosInf) then None
      else if f_inf x then Some x
      else if f_inf y then Some y
      else if f_val x + f_val y = 0
        then Some (if x = NegZero \<and> y = NegZero then NegZero else Finite 0)
      else Some (Finite (f_val x + f_val y)))"

definition unrounded_sum :: "float64 list \<Rightarrow> float64 option" where
  "unrounded_sum xs =
     foldl (\<lambda>acc x. case acc of None \<Rightarrow> None | Some a \<Rightarrow> unrounded_add a x)
       (Some (Finite 0)) xs"

definition unrounded :: fpu where
  "unrounded =
     \<lparr>f_of_int = (\<lambda>a. Finite (of_int (sint a))), f_mul = unrounded_mul, f_sum = unrounded_sum\<rparr>"

text \<open>
  A ledger of three rows: an invoice, a credit note in foreign currency and a credit note
  the source system already reports signed. The amounts of \<^verbatim>\<open>Neto\<close> and the exchange rates
  are \<^verbatim>\<open>float64\<close>, those of \<^verbatim>\<open>IVA\<close> are \<^verbatim>\<open>int64\<close>. After the marker, \<^verbatim>\<open>Exento\<close> is all
  zero, \<^verbatim>\<open>Otros\<close> is empty and \<^verbatim>\<open>IVA\<close> has a single non-zero value.
\<close>

definition ledger_example :: frame where
  "ledger_example =
     [\<lparr>cname = ''Fecha'', ctype = Object,
        cells = [Str ''01/03/2024'', Str ''15/03/2024'', Str ''02/04/2024'']\<rparr>,
      \<lparr>cname = ''Tipo'', ctype = Object,
        cells = [Str ''1 - Factura A'', Str ''3 - Nota de Credito A'', Str ''NC'']\<rparr>,
      \<lparr>cname = ''Tipo Cambio'', ctype = Float64,
        cells = [F64 (Finite 1), F64 (Finite 2), F64 (Finite 1)]\<rparr>,
      \<lparr>cname = ''Moneda'', ctype = Object, cells = [Str ''$'', Str ''USD'', Str ''$'']\<rparr>,
      \<lparr>cname = ''Neto'', ctype = Float64,
        cells = [F64 (Finite 100), F64 (Finite 50), F64 (Finite (- 30))]\<rparr>,
      \<lparr>cname = ''Exento'', ctype = Int64, cells = [I64 0, I64 0, I64 0]\<rparr>,
      \<lparr>cname = ''Otros'', ctype = Float64, cells = [NaN, NaN, NaN]\<rparr>,
      \<lparr>cname = ''IVA'', ctype = Int64, cells = [I64 0, I64 21, I64 0]\<rparr>]"

definition ledger_example_cleaned :: frame where
  "ledger_example_cleaned =
     [\<lparr>cname = ''Fecha'', ctype = Object,
        cells = [Str ''01/03/2024'', Str ''15/03/2024'', Str ''02/04/2024'', Str '''']\<rparr>,
      \<lparr>cname = ''Tipo'', ctype = Object,
        cells = [Str ''1 - Factura A'', Str ''3 - Nota de Credito A'', Str ''NC'', Str '''']\<rparr>,
      \<lparr>cname = ''Tipo Cambio'', ctype = Object,
        cells = [F64 (Finite 1), F64 (Finite 2), F64 (Finite 1), Str '''']\<rparr>,
      \<lparr>cname = ''Moneda'', ctype = Object,
        cells = [Str ''$'', Str ''USD'', Str ''$'', Str '''']\<rparr>,
      \<lparr>cname = ''Neto'', ctype = Float64,
        cells = [F64 (Finite 100), F64 (Finite (- 100)), F64 (Finite (- 30)),
                 F64 (Finite (- 30))]\<rparr>,
      \<lparr>cname = ''IVA'', ctype = Float64,
        cells = [F64 (Finite 0), F64 (Finite (- 42)), F64 (Finite 0), F64 (Finite (- 42))]\<rparr>]"

text \<open>A table with one row in April followed by one row in March.\<close>

definition tie_example :: frame where
  "tie_example =
     [\<lparr>cname = ''Fecha'', ctype = Object, cells = [Str ''05/04/2024'', Str ''10/03/2024'']\<rparr>]"

text \<open>A table with one row in March 2025 followed by one row in March 2024.\<close>

definition year_tie_example :: frame where
  "year_tie_example =
     [\<lparr>cname = ''Fecha'', ctype = Object, cells = [Str ''05/03/2025'', Str ''10/03/2024'']\<rparr>]"


text \<open>The banner of an export of issued documents, and a banner without a direction.\<close>

definition banner_example :: "string list" where
  "banner_example = [''Mis Comprobantes Emitidos - CUIT 30716820080'', ''nan'', ''nan'']"

definition banner_without_tipo :: "string list" where
  "banner_without_tipo = [''Mis Comprobantes - CUIT 30716820080'']"

definition banner_two_runs :: "string list" where
  "banner_two_runs = [''Comprobantes Recibidos 20304050607 - cuit: 30716820080'']"

text \<open>A processor whose table, the example ledger, is loaded as object 0.\<close>

definition processor_example :: processor where
  "processor_example =
     \<lparr>self_file_path = ''libro.xlsx'', self_df = Some 0, self_month_detected = None\<rparr>"

text \<open>
  A drive with the root folder, the folder of the client \<^verbatim>\<open>ACME\<close> and its folders
  \<^verbatim>\<open>Ventas\<close> and \<^verbatim>\<open>Compras\<close>, and no workbook yet; and a request to merge the example
  ledger as the sheet \<^verbatim>\<open>Marzo\<close> of the sales of 2024.
\<close>

definition folder_item :: "nat \<Rightarrow> string \<Rightarrow> nat list \<Rightarrow> item" where
  "folder_item fid name parents =
     \<lparr>item_id = fid, item_name = name, item_mime = FolderMime, item_parents = parents,
      item_trashed = False, item_content = []\<rparr>"

definition drive_example :: drive where
  "drive_example =
     \<lparr>items = [folder_item 0 ''Clientes Libros Iva'' [], folder_item 1 ''ACME'' [0],
               folder_item 2 ''Ventas'' [1], folder_item 3 ''Compras'' [1]],
      next_id = 4\<rparr>"

definition world_example :: world where
  "world_example =
     \<lparr>w_handler = \<lparr>root_folder_id = None\<rparr>, w_drive = drive_example,
      w_tmp = (\<lambda>_. None), w_next_tmp = 0\<rparr>"

definition request_example :: request where
  "request_example =
     \<lparr>req_file = Some ledger_example, req_client = ''ACME'', req_tipo = ''ventas'',
      req_year = 2024, req_month = 3, req_month_name = ''Marzo'',
      create_if_not_exists = False\<rparr>"


text \<open>
  A ledger of one invoice whose exchange-rate column stands after the marker, and what
  \<^verbatim>\<open>clean_data\<close> makes of it: the rate 2 becomes 4, and the amount 1 becomes 4.
\<close>

definition rate_after_example :: frame where
  "rate_after_example =
     [\<lparr>cname = ''Fecha'', ctype = Object, cells = [Str ''01/03/2024'']\<rparr>,
      \<lparr>cname = ''Tipo'', ctype = Object, cells = [Str ''1 - Factura A'']\<rparr>,
      \<lparr>cname = ''Moneda'', ctype = Object, cells = [Str ''USD'']\<rparr>,
      \<lparr>cname = ''Tipo Cambio'', ctype = Int64, cells = [I64 2]\<rparr>,
      \<lparr>cname = ''IVA'', ctype = Int64, cells = [I64 1]\<rparr>]"

definition rate_after_cleaned :: frame where
  "rate_after_cleaned =
     [\<lparr>cname = ''Fecha'', ctype = Object, cells = [Str ''01/03/2024'', Str '''']\<rparr>,
      \<lparr>cname = ''Tipo'', ctype = Object, cells = [Str ''1 - Factura A'', Str '''']\<rparr>,
      \<lparr>cname = ''Moneda'', ctype = Object, cells = [Str ''USD'', Str '''']\<rparr>,
      \<lparr>cname = ''Tipo Cambio'', ctype = Int64, cells = [I64 4, I64 4]\<rparr>,
      \<lparr>cname = ''IVA'', ctype = Int64, cells = [I64 4, I64 4]\<rparr>]"



section \<open>Properties of \<^verbatim>\<open>clean_data\<close>\<close>

lemma getcol_map:
  "(\<And>c. cname (f c) = cname c) \<Longrightarrow> getcol n (map f df) = map_option f (getcol n df)"
  by (induction df) auto

lemma getcol_SomeD: "getcol n df = Some c \<Longrightarrow> c \<in> set df \<and> cname c = n"
  by (induction df) (auto split: if_splits)

lemma getcol_distinct:
  "distinct (map cname df) \<Longrightarrow> c \<in> set df \<Longrightarrow> getcol (cname c) df = Some c"
  by (induction df) auto

lemma getcol_None: "getcol n df = None \<longleftrightarrow> n \<notin> set (map cname df)"
  by (induction df) auto

lemma get_loc_SomeD: "get_loc n df = Some i \<Longrightarrow> i < length df \<and> cname (df ! i) = n"
proof (induction df arbitrary: i)
  case Nil
  then show ?case by simp
next
  case (Cons c cs)
  then show ?case by (cases i) (auto split: if_splits)
qed

lemma getcol_filter:
  "getcol n df = Some c \<Longrightarrow> P c \<Longrightarrow> distinct (map cname df) \<Longrightarrow> getcol n (filter P df) = Some c"
proof (induction df)
  case Nil
  then show ?case by simp
next
  case (Cons a df)
  then show ?case 
    by (auto split: if_splits dest: getcol_SomeD)
qed

lemma getcol_filter_SomeD:
  "getcol n (filter P df) = Some c \<Longrightarrow> distinct (map cname df) \<Longrightarrow> getcol n df = Some c"
proof (induction df)
  case Nil
  then show ?case by simp
next
  case (Cons a df)
  then show ?case 
    by (auto split: if_splits dest!: getcol_SomeD)
qed

lemma drop_columns_split:
  assumes "distinct (columns df)"
  shows "drop_columns (columns_to_drop m df) df =
         take (Suc m) df @ filter (\<lambda>c. \<not> (isna_all c \<or> eq0_all c)) (drop (Suc m) df)"
proof -
  have "distinct (map cname (take (Suc m) df @ drop (Suc m) df))"
    using assms by (simp add: columns_def)
  then have d: "cname ` set (take (Suc m) df) \<inter> cname ` set (drop (Suc m) df) = {}"
    unfolding map_append distinct_append by simp
  have a: "filter (\<lambda>c. cname c \<notin> set (columns_to_drop m df)) (take (Suc m) df) = take (Suc m) df"
  proof (rule filter_True, rule ballI)
    fix c assume c: "c \<in> set (take (Suc m) df)"
    have "set (columns_to_drop m df) \<subseteq> cname ` set (drop (Suc m) df)"
      by (auto simp: columns_to_drop_def columns_def drop_map)
    moreover have "cname c \<notin> cname ` set (drop (Suc m) df)"
      using d c by auto
    ultimately show "cname c \<notin> set (columns_to_drop m df)" by blast
  qed
  have b: "filter (\<lambda>c. cname c \<notin> set (columns_to_drop m df)) (drop (Suc m) df)
         = filter (\<lambda>c. \<not> (isna_all c \<or> eq0_all c)) (drop (Suc m) df)"
  proof (rule filter_cong[OF refl])
    fix c assume c: "c \<in> set (drop (Suc m) df)"
    then have "c \<in> set df" by (rule in_set_dropD)
    then have g: "getcol (cname c) df = Some c"
      using assms by (simp add: getcol_distinct columns_def)
    have "cname c \<in> set (drop (Suc m) (columns df))"
      using c by (simp add: columns_def drop_map)
    then show "(cname c \<notin> set (columns_to_drop m df)) = (\<not> (isna_all c \<or> eq0_all c))"
      using g by (simp add: columns_to_drop_def)
  qed
  have "drop_columns (columns_to_drop m df) df
        = filter (\<lambda>c. cname c \<notin> set (columns_to_drop m df)) (take (Suc m) df @ drop (Suc m) df)"
    by (simp add: drop_columns_def)
  also have "\<dots> = take (Suc m) df @ filter (\<lambda>c. \<not> (isna_all c \<or> eq0_all c)) (drop (Suc m) df)"
    by (simp only: filter_append a b)
  finally show ?thesis .
qed

lemma scale_step_InrD:
  "scale_step fp mk col df = Inr df' \<Longrightarrow>
   \<exists>rate. getcol ''Tipo Cambio'' df = Some rate \<and> is_numeric (ctype rate) \<and>
          df' = map (\<lambda>c. if cname c = col then scale_col fp mk rate c else c) df"
  by (auto simp: scale_step_def split: option.splits if_splits)

lemma cname_scale_col [simp]: "cname (scale_col fp mk rate c) = cname c"
  by (simp add: scale_col_def)

lemma numeric_scale_col: "is_numeric (ctype (scale_col fp mk rate c))"
  by (simp add: scale_col_def mul_dtype_def is_numeric_def)

lemma length_scale_col:
  "length mk = n \<Longrightarrow> length (cells rate) = n \<Longrightarrow> length (cells c) = n \<Longrightarrow>
   length (cells (scale_col fp mk rate c)) = n"
  by (simp add: scale_col_def)

lemma scale_step_names: "scale_step fp mk col df = Inr df' \<Longrightarrow> map cname df' = map cname df"
  by (auto dest!: scale_step_InrD)

lemma scale_step_lengths:
  assumes "scale_step fp mk col df = Inr df'" "length mk = n" "\<forall>c\<in>set df. length (cells c) = n"
  shows "\<forall>c\<in>set df'. length (cells c) = n"
proof -
  from assms(1) obtain rate where r: "getcol ''Tipo Cambio'' df = Some rate"
    and d: "df' = map (\<lambda>c. if cname c = col then scale_col fp mk rate c else c) df"
    by (blast dest: scale_step_InrD)
  from r have "rate \<in> set df" by (simp add: getcol_SomeD)
  then have "length (cells rate) = n" using assms(3) by simp
  then show ?thesis using assms(2,3) d by (auto simp: length_scale_col)
qed

lemma scale_step_numeric:
  assumes "scale_step fp mk col df = Inr df'" "\<forall>c\<in>set df. cname c \<in> S \<longrightarrow> is_numeric (ctype c)"
  shows "\<forall>c\<in>set df'. cname c \<in> S \<longrightarrow> is_numeric (ctype c)"
  using assms by (auto dest!: scale_step_InrD simp: numeric_scale_col)

lemma scale_loop_names: "scale_loop fp mk cols df = Inr df' \<Longrightarrow> map cname df' = map cname df"
proof (induction cols arbitrary: df)
  case Nil
  then show ?case by simp
next
  case (Cons col cols)
  then show ?case by (auto split: sum.splits dest: scale_step_names)
qed

lemma scale_loop_lengths:
  "scale_loop fp mk cols df = Inr df' \<Longrightarrow> length mk = n \<Longrightarrow> \<forall>c\<in>set df. length (cells c) = n \<Longrightarrow>
   \<forall>c\<in>set df'. length (cells c) = n"
proof (induction cols arbitrary: df)
  case Nil
  then show ?case by simp
next
  case (Cons col cols)
  from Cons.prems(1) obtain d1 where s: "scale_step fp mk col df = Inr d1"
    and l: "scale_loop fp mk cols d1 = Inr df'"
    by (auto split: sum.splits)
  from scale_step_lengths[OF s Cons.prems(2,3)] Cons.IH[OF l Cons.prems(2)]
  show ?case by blast
qed

lemma scale_loop_numeric:
  "scale_loop fp mk cols df = Inr df' \<Longrightarrow> \<forall>c\<in>set df. cname c \<in> S \<longrightarrow> is_numeric (ctype c) \<Longrightarrow>
   \<forall>c\<in>set df'. cname c \<in> S \<longrightarrow> is_numeric (ctype c)"
proof (induction cols arbitrary: df)
  case Nil
  then show ?case by simp
next
  case (Cons col cols)
  from Cons.prems(1) obtain d1 where s: "scale_step fp mk col df = Inr d1"
    and l: "scale_loop fp mk cols d1 = Inr df'"
    by (auto split: sum.splits)
  from scale_step_numeric[OF s Cons.prems(2)] Cons.IH[OF l]
  show ?case by blast
qed

lemma format_fecha_InrD:
  "format_fecha df = Inr df' \<Longrightarrow>
   \<exists>f. getcol ''Fecha'' df = Some f \<and>
       (ctype f = Object \<and> df' = df \<or>
        ctype f = Datetime64 \<and>
        df' = map (\<lambda>c. if cname c = ''Fecha''
                        then c\<lparr>ctype := Object, cells := map strftime_dmy (cells c)\<rparr>
                        else c) df)"
  by (auto simp: format_fecha_def split: option.splits if_splits)

lemma format_fecha_names: "format_fecha df = Inr df' \<Longrightarrow> map cname df' = map cname df"
  by (auto dest!: format_fecha_InrD)

lemma format_fecha_lengths:
  "format_fecha df = Inr df' \<Longrightarrow> \<forall>c\<in>set df. length (cells c) = n \<Longrightarrow>
   \<forall>c\<in>set df'. length (cells c) = n"
  by (auto dest!: format_fecha_InrD)

lemma format_fecha_numeric:
  assumes "format_fecha df = Inr df'"
    "\<forall>c\<in>set df. cname c \<in> S \<longrightarrow> is_numeric (ctype c)"
  shows "\<forall>c\<in>set df'. cname c \<in> S \<longrightarrow> is_numeric (ctype c)"
proof -
  from assms(1) obtain f where f: "getcol ''Fecha'' df = Some f"
    and c: "ctype f = Object \<and> df' = df \<or>
        ctype f = Datetime64 \<and>
        df' = map (\<lambda>c. if cname c = ''Fecha''
                        then c\<lparr>ctype := Object, cells := map strftime_dmy (cells c)\<rparr>
                        else c) df"
    by (blast dest: format_fecha_InrD)
  from f have fm: "f \<in> set df" "cname f = ''Fecha''" by (simp_all add: getcol_SomeD)
  show ?thesis
  proof (cases "df' = df")
    case True
    then show ?thesis using assms(2) by simp
  next
    case False
    with c have dt: "ctype f = Datetime64" and
      d: "df' = map (\<lambda>c. if cname c = ''Fecha''
                        then c\<lparr>ctype := Object, cells := map strftime_dmy (cells c)\<rparr>
                        else c) df" by auto
    from dt have "\<not> is_numeric (ctype f)" by (simp add: is_numeric_def)
    with fm assms(2) have "''Fecha'' \<notin> S" by auto
    then show ?thesis using d assms(2) by auto
  qed
qed

lemma clean_data_InrD:
  assumes "clean_data fp df = Inr out"
  shows "\<exists>m tipo df2 df3.
           get_loc ''Moneda'' df = Some m \<and>
           getcol ''Tipo'' (drop_columns (columns_to_drop m df) df) = Some tipo \<and>
           scale_loop fp (map is_nota_credito (cells tipo))
             (numeric_cols m (drop_columns (columns_to_drop m df) df))
             (drop_columns (columns_to_drop m df) df) = Inr df2 \<and>
           format_fecha df2 = Inr df3 \<and>
           out = append_totals fp (numeric_cols m (drop_columns (columns_to_drop m df) df)) df3"
  using assms
  by (simp add: clean_data_def Let_def split: option.splits sum.splits)

lemma wf_frameD:
  assumes "wf_frame df"
  shows "distinct (map cname df)" "\<forall>c\<in>set df. length (cells c) = nrows df"
    "\<forall>c\<in>set df. \<forall>x\<in>set (cells c). cell_fits (ctype c) x"
  using assms by (auto simp: wf_frame_def columns_def list_all_iff)

lemma numeric_cols_numeric:
  "distinct (map cname df) \<Longrightarrow> c \<in> set df \<Longrightarrow> cname c \<in> set (numeric_cols m df) \<Longrightarrow>
   is_numeric (ctype c)"
proof -
  assume d: "distinct (map cname df)" and c: "c \<in> set df"
    and n: "cname c \<in> set (numeric_cols m df)"
  from n obtain c' where c': "c' \<in> set (drop (Suc m) df)" "is_numeric (ctype c')" "cname c' = cname c"
    by (auto simp: numeric_cols_def)
  from c'(1) have "c' \<in> set df" by (rule in_set_dropD)
  with d c c'(3) have "c' = c" by (metis distinct_map inj_onD)
  with c'(2) show ?thesis by simp
qed

lemma fits_mul_cell:
  "is_numeric ta \<Longrightarrow> is_numeric tb \<Longrightarrow> cell_fits ta a \<Longrightarrow> cell_fits tb b \<Longrightarrow>
   cell_fits (mul_dtype ta tb) (mul_cell fp a b)"
  by (cases a; cases b; cases ta; cases tb)
     (auto simp: is_numeric_def mul_dtype_def of_float_def split: option.splits)

lemma fits_sign_fix: "is_numeric t \<Longrightarrow> cell_fits t v \<Longrightarrow> cell_fits t (sign_fix nc v)"
  by (cases v; cases t) (auto simp: sign_fix_def is_numeric_def)

lemma fits_scale_col:
  assumes "is_numeric (ctype c)" "is_numeric (ctype rate)"
    "\<forall>x\<in>set (cells c). cell_fits (ctype c) x" "\<forall>x\<in>set (cells rate). cell_fits (ctype rate) x"
  shows "\<forall>x\<in>set (cells (scale_col fp mk rate c)). cell_fits (ctype (scale_col fp mk rate c)) x"
proof
  fix x assume "x \<in> set (cells (scale_col fp mk rate c))"
  then obtain nc v where x: "x = sign_fix nc v"
    and v: "v \<in> set (map (\<lambda>(v, r). mul_cell fp v r) (zip (cells c) (cells rate)))"
    by (auto simp: scale_col_def dest: set_zip_rightD)
  then obtain a b where ab: "(a, b) \<in> set (zip (cells c) (cells rate))"
    and vv: "v = mul_cell fp a b" by auto
  have a: "a \<in> set (cells c)" using ab by (rule set_zip_leftD)
  have b: "b \<in> set (cells rate)" using ab by (rule set_zip_rightD)
  have n: "is_numeric (mul_dtype (ctype c) (ctype rate))"
    by (simp add: mul_dtype_def is_numeric_def)
  have "cell_fits (mul_dtype (ctype c) (ctype rate)) (mul_cell fp a b)"
    using assms a b by (intro fits_mul_cell) auto
  then show "cell_fits (ctype (scale_col fp mk rate c)) x"
    unfolding x vv using n by (simp add: scale_col_def fits_sign_fix)
qed

lemma scale_step_fits:
  assumes "scale_step fp mk col df = Inr df'" "col \<in> S"
    "\<forall>c\<in>set df. cname c \<in> S \<longrightarrow> is_numeric (ctype c)"
    "\<forall>c\<in>set df. is_numeric (ctype c) \<longrightarrow> (\<forall>x\<in>set (cells c). cell_fits (ctype c) x)"
  shows "\<forall>c\<in>set df'. is_numeric (ctype c) \<longrightarrow> (\<forall>x\<in>set (cells c). cell_fits (ctype c) x)"
proof -
  from scale_step_InrD[OF assms(1)] obtain rate where
    r: "getcol ''Tipo Cambio'' df = Some rate" and rn: "is_numeric (ctype rate)"
    and d: "df' = map (\<lambda>c. if cname c = col then scale_col fp mk rate c else c) df"
    by blast
  from r have rin: "rate \<in> set df" by (simp add: getcol_SomeD)
  then have rf: "\<forall>x\<in>set (cells rate). cell_fits (ctype rate) x" using assms(4) rn by blast
  show ?thesis
  proof (intro ballI impI)
    fix c' x assume c': "c' \<in> set df'" and "is_numeric (ctype c')" and x: "x \<in> set (cells c')"
    from c' d obtain c where c: "c \<in> set df"
      and e: "c' = (if cname c = col then scale_col fp mk rate c else c)" by auto
    show "cell_fits (ctype c') x"
    proof (cases "cname c = col")
      case True
      then have "is_numeric (ctype c)" using assms(2,3) c by blast
      then have "\<forall>x\<in>set (cells (scale_col fp mk rate c)). cell_fits (ctype (scale_col fp mk rate c)) x"
        using rn assms(4) c rf by (intro fits_scale_col) auto
      then show ?thesis using e True x by simp
    next
      case False
      then show ?thesis using e x c assms(4) \<open>is_numeric (ctype c')\<close> by simp
    qed
  qed
qed

lemma scale_loop_fits:
  "scale_loop fp mk cols df = Inr df' \<Longrightarrow> set cols \<subseteq> S \<Longrightarrow>
   \<forall>c\<in>set df. cname c \<in> S \<longrightarrow> is_numeric (ctype c) \<Longrightarrow>
   \<forall>c\<in>set df. is_numeric (ctype c) \<longrightarrow> (\<forall>x\<in>set (cells c). cell_fits (ctype c) x) \<Longrightarrow>
   \<forall>c\<in>set df'. is_numeric (ctype c) \<longrightarrow> (\<forall>x\<in>set (cells c). cell_fits (ctype c) x)"
proof (induction cols arbitrary: df)
  case Nil
  then show ?case by simp
next
  case (Cons col cols)
  from Cons.prems(1) obtain d1 where s: "scale_step fp mk col df = Inr d1"
    and l: "scale_loop fp mk cols d1 = Inr df'"
    by (auto split: sum.splits)
  have c: "col \<in> S" and cs: "set cols \<subseteq> S" using Cons.prems(2) by auto
  from scale_step_fits[OF s c Cons.prems(3,4)] scale_step_numeric[OF s Cons.prems(3)]
    Cons.IH[OF l cs]
  show ?case by blast
qed

lemma format_fecha_fits:
  assumes "format_fecha df = Inr df'"
    "\<forall>c\<in>set df. is_numeric (ctype c) \<longrightarrow> (\<forall>x\<in>set (cells c). cell_fits (ctype c) x)"
  shows "\<forall>c\<in>set df'. is_numeric (ctype c) \<longrightarrow> (\<forall>x\<in>set (cells c). cell_fits (ctype c) x)"
  using assms by (auto dest!: format_fecha_InrD simp: is_numeric_def)

lemma clean_data_shape:
  assumes wf: "wf_frame df" and cd: "clean_data fp df = Inr out"
  shows "\<exists>m df3. get_loc ''Moneda'' df = Some m \<and>
           map cname df3 = map cname (retained m df) \<and>
           (\<forall>c\<in>set df3. length (cells c) = nrows df) \<and>
           (\<forall>c\<in>set df3. cname c \<in> set (numeric_cols m (retained m df)) \<longrightarrow> is_numeric (ctype c)) \<and>
           (\<forall>c\<in>set df3. is_numeric (ctype c) \<longrightarrow> (\<forall>x\<in>set (cells c). cell_fits (ctype c) x)) \<and>
           out = append_totals fp (numeric_cols m (retained m df)) df3"
proof -
  from clean_data_InrD[OF cd] obtain m tipo df2 df3 where
    m: "get_loc ''Moneda'' df = Some m" and
    t: "getcol ''Tipo'' (drop_columns (columns_to_drop m df) df) = Some tipo" and
    s: "scale_loop fp (map is_nota_credito (cells tipo))
             (numeric_cols m (drop_columns (columns_to_drop m df) df))
             (drop_columns (columns_to_drop m df) df) = Inr df2" and
    f: "format_fecha df2 = Inr df3" and
    o: "out = append_totals fp (numeric_cols m (drop_columns (columns_to_drop m df) df)) df3"
    by blast
  have dist: "distinct (columns df)" using wf by (simp add: wf_frame_def)
  have k: "drop_columns (columns_to_drop m df) df = retained m df"
    by (simp add: drop_columns_split[OF dist] retained_def)
  have sub: "set (retained m df) \<subseteq> set df"
    by (auto simp: retained_def dest: in_set_takeD in_set_dropD)
  have dk: "distinct (map cname (retained m df))"
    using dist unfolding k[symmetric] drop_columns_def columns_def by (simp add: distinct_map_filter)
  have lk: "\<forall>c\<in>set (retained m df). length (cells c) = nrows df"
    using wf_frameD(2)[OF wf] sub by blast
  have fk: "\<forall>c\<in>set (retained m df). is_numeric (ctype c) \<longrightarrow> (\<forall>x\<in>set (cells c). cell_fits (ctype c) x)"
    using wf_frameD(3)[OF wf] sub by blast
  from t have "tipo \<in> set (retained m df)" unfolding k by (simp add: getcol_SomeD)
  then have lt: "length (map is_nota_credito (cells tipo)) = nrows df" using lk by simp
  have nk: "\<forall>c\<in>set (retained m df). cname c \<in> set (numeric_cols m (retained m df)) \<longrightarrow> is_numeric (ctype c)"
    using numeric_cols_numeric[OF dk] by blast
  have n2: "map cname df2 = map cname (retained m df)"
    using scale_loop_names[OF s] by (simp add: k)
  have l2: "\<forall>c\<in>set df2. length (cells c) = nrows df"
    using scale_loop_lengths[OF s lt] lk by (simp add: k)
  have u2: "\<forall>c\<in>set df2. cname c \<in> set (numeric_cols m (retained m df)) \<longrightarrow> is_numeric (ctype c)"
    using scale_loop_numeric[OF s, of "set (numeric_cols m (retained m df))"] nk by (simp add: k)
  have f2: "\<forall>c\<in>set df2. is_numeric (ctype c) \<longrightarrow> (\<forall>x\<in>set (cells c). cell_fits (ctype c) x)"
    using scale_loop_fits[OF s, of "set (numeric_cols m (retained m df))"] nk fk by (simp add: k)
  have "map cname df3 = map cname (retained m df)"
    using format_fecha_names[OF f] n2 by simp
  moreover have "\<forall>c\<in>set df3. length (cells c) = nrows df"
    using format_fecha_lengths[OF f l2] .
  moreover have "\<forall>c\<in>set df3. cname c \<in> set (numeric_cols m (retained m df)) \<longrightarrow> is_numeric (ctype c)"
    using format_fecha_numeric[OF f u2] .
  moreover have "\<forall>c\<in>set df3. is_numeric (ctype c) \<longrightarrow> (\<forall>x\<in>set (cells c). cell_fits (ctype c) x)"
    using format_fecha_fits[OF f f2] .
  moreover have "out = append_totals fp (numeric_cols m (retained m df)) df3"
    using o by (simp add: k)
  ultimately show ?thesis using m by blast
qed

lemma columns_append_totals: "columns (append_totals fp ns df) = columns df"
  by (simp add: append_totals_def columns_def)

lemma scale_loop_seen:
  assumes "scale_loop fp mk cols df = Inr df'" "getcol ''Tipo Cambio'' df = Some rate"
    "distinct cols"
  shows "df' = map (\<lambda>c. if cname c \<in> set cols
                        then scale_col fp mk
                               (if ''Tipo Cambio'' \<in> set (takeWhile (\<lambda>n. n \<noteq> cname c) cols)
                                then scale_col fp mk rate rate else rate) c
                        else c) df"
  using assms
proof (induction cols arbitrary: df rate)
  case Nil
  then show ?case by simp
next
  case (Cons col cols)
  let ?g = "\<lambda>c. if cname c = col then scale_col fp mk rate c else c"
  from Cons.prems(1) obtain d1 where s: "scale_step fp mk col df = Inr d1"
    and l: "scale_loop fp mk cols d1 = Inr df'"
    by (auto split: sum.splits)
  from scale_step_InrD[OF s] Cons.prems(2) have d1: "d1 = map ?g df" by auto
  have rn: "cname rate = ''Tipo Cambio''" using Cons.prems(2) by (simp add: getcol_SomeD)
  have "getcol ''Tipo Cambio'' d1 = map_option ?g (getcol ''Tipo Cambio'' df)"
    unfolding d1 by (rule getcol_map) simp
  then have r1: "getcol ''Tipo Cambio'' d1 = Some (?g rate)"
    using Cons.prems(2) by simp
  have dc: "distinct cols" and cn: "col \<notin> set cols" using Cons.prems(3) by auto
  note ih = Cons.IH[OF l r1 dc]
  show ?case
  proof (cases "col = ''Tipo Cambio''")
    case True
    then have tn: "''Tipo Cambio'' \<notin> set cols" using cn by simp
    then have tw: "\<And>n. ''Tipo Cambio'' \<notin> set (takeWhile (\<lambda>x. x \<noteq> n) cols)"
      by (meson set_takeWhileD)
    have gr: "?g rate = scale_col fp mk rate rate" using True rn by simp
    show ?thesis
      unfolding ih d1 map_map using True tn tw gr cn
      by (intro map_cong refl) auto
  next
    case False
    have gr: "?g rate = rate" using False rn by simp
    show ?thesis
      unfolding ih d1 map_map gr using False cn
      by (intro map_cong refl) auto
  qed
qed

lemma takeWhile_position:
  assumes "distinct (map cname xs)" "a < length xs" "P (xs ! a)" "b < length xs" "P (xs ! b)"
  shows "(cname (xs ! a) \<in> set (takeWhile (\<lambda>n. n \<noteq> cname (xs ! b)) (map cname (filter P xs))))
         = (a < b)"
  using assms
proof (induction xs arbitrary: a b)
  case Nil
  then show ?case by simp
next
  case (Cons x xs)
  show ?case
  proof (cases a)
    case a0: 0
    show ?thesis
    proof (cases b)
      case 0
      then show ?thesis using a0 Cons.prems by simp
    next
      case (Suc b')
      then have "xs ! b' \<in> set xs" using Cons.prems by simp
      then have "cname (xs ! b') \<noteq> cname x" using Cons.prems(1) by (auto simp: image_iff)
      then show ?thesis using a0 Suc Cons.prems by simp
    qed
  next
    case sa: (Suc a')
    then have "xs ! a' \<in> set xs" using Cons.prems by simp
    then have na: "cname (xs ! a') \<noteq> cname x" using Cons.prems(1) by (auto simp: image_iff)
    show ?thesis
    proof (cases b)
      case 0
      then show ?thesis using sa Cons.prems by simp
    next
      case (Suc b')
      then have "xs ! b' \<in> set xs" using Cons.prems by simp
      then have nb: "cname (xs ! b') \<noteq> cname x" using Cons.prems(1) by (auto simp: image_iff)
      have ih: "(cname (xs ! a') \<in> set (takeWhile (\<lambda>n. n \<noteq> cname (xs ! b')) (map cname (filter P xs))))
         = (a' < b')"
        using Cons.IH[of a' b'] Cons.prems sa Suc by simp
      show ?thesis using sa Suc na nb ih by auto
    qed
  qed
qed

lemma format_fecha_getcol_numeric:
  assumes "format_fecha df = Inr df'" "getcol n df = Some c" "is_numeric (ctype c)"
  shows "getcol n df' = Some c"
proof -
  let ?F = "\<lambda>c. if cname c = ''Fecha''
                 then c\<lparr>ctype := Object, cells := map strftime_dmy (cells c)\<rparr> else c"
  from format_fecha_InrD[OF assms(1)] obtain f where f: "getcol ''Fecha'' df = Some f"
    and c: "ctype f = Object \<and> df' = df \<or> ctype f = Datetime64 \<and> df' = map ?F df"
    by blast
  show ?thesis
  proof (cases "df' = df")
    case True
    then show ?thesis using assms(2) by simp
  next
    case False
    with c have dt: "ctype f = Datetime64" and d: "df' = map ?F df" by auto
    have "n \<noteq> ''Fecha''"
      using f assms(2,3) dt by (auto simp: is_numeric_def)
    moreover have "cname c = n" using assms(2) by (simp add: getcol_SomeD)
    moreover have "getcol n (map ?F df) = map_option ?F (getcol n df)"
      by (rule getcol_map) simp
    ultimately show ?thesis using d assms(2) by simp
  qed
qed

lemma getcol_append_totals:
  "getcol n df = Some c \<Longrightarrow> n \<in> set ns \<Longrightarrow>
   getcol n (append_totals fp ns df) = Some (c\<lparr>cells := cells c @ [col_sum fp (ctype c) (cells c)]\<rparr>)"
proof -
  assume g: "getcol n df = Some c" and n: "n \<in> set ns"
  let ?h = "\<lambda>c. if cname c \<in> set ns
              then c\<lparr>cells := cells c @ [col_sum fp (ctype c) (cells c)]\<rparr>
              else c\<lparr>ctype := Object, cells := cells c @ [Str '''']\<rparr>"
  have "getcol n (map ?h df) = map_option ?h (getcol n df)"
    by (rule getcol_map) simp
  moreover have "cname c = n" using g by (simp add: getcol_SomeD)
  ultimately show ?thesis using g n by (simp add: append_totals_def)
qed

lemma get_loc_getcol: "get_loc n df = Some k \<Longrightarrow> getcol n df = Some (df ! k)"
proof (induction df arbitrary: k)
  case Nil
  then show ?case by simp
next
  case (Cons a df)
  then show ?case by (cases k) (auto split: if_splits)
qed

lemma nth_scale_col:
  assumes "i < n" "length mk = n" "length (cells rate) = n" "length (cells c) = n"
  shows "cells (scale_col fp mk rate c) ! i = sign_fix (mk ! i) (mul_cell fp (cells c ! i) (cells rate ! i))"
  using assms by (simp add: scale_col_def)

lemma getcol_get_loc: "getcol n df = Some c \<Longrightarrow> \<exists>k. get_loc n df = Some k \<and> df ! k = c"
  by (induction df) (auto split: if_splits)

lemma nth_in_drop:
  "m < j \<Longrightarrow> j < length df \<Longrightarrow> df ! j = drop (Suc m) df ! (j - Suc m) \<and> j - Suc m < length (drop (Suc m) df)"
  by simp

lemma clean_data_scaled_cell:
  assumes wf: "wf_frame df" and cd: "clean_data fp df = Inr out"
    and m: "get_loc ''Moneda'' df = Some m"
    and t: "getcol ''Tipo'' df = Some tipo"
    and j: "m < j" "j < length df" "is_numeric (ctype (df ! j))"
           "\<not> (isna_all (df ! j) \<or> eq0_all (df ! j))"
    and i: "i < nrows df"
  shows "\<exists>k oc. get_loc ''Tipo Cambio'' df = Some k \<and>
              getcol (cname (df ! j)) out = Some oc \<and>
              cells oc ! i =
                sign_fix (is_nota_credito (cells tipo ! i))
                  (mul_cell fp (cells (df ! j) ! i)
                     (if m < k \<and> k < j
                      then sign_fix (is_nota_credito (cells tipo ! i))
                             (mul_cell fp (cells (df ! k) ! i) (cells (df ! k) ! i))
                      else cells (df ! k) ! i))"
proof -
  let ?d1 = "drop_columns (columns_to_drop m df) df"
  let ?nc = "numeric_cols m ?d1"
  let ?kept = "\<lambda>c. \<not> (isna_all c \<or> eq0_all c)"
  let ?P = "\<lambda>c. ?kept c \<and> is_numeric (ctype c)"
  let ?xs = "drop (Suc m) df"
  from clean_data_InrD[OF cd] m obtain tipo' df2 df3 where
    t': "getcol ''Tipo'' ?d1 = Some tipo'" and
    s: "scale_loop fp (map is_nota_credito (cells tipo')) ?nc ?d1 = Inr df2" and
    f: "format_fecha df2 = Inr df3" and
    o: "out = append_totals fp ?nc df3"
    by auto
  have dist: "distinct (map cname df)" using wf by (rule wf_frameD)
  have dist': "distinct (columns df)" using dist by (simp add: columns_def)
  have kd: "?d1 = retained m df"
    by (simp add: drop_columns_split[OF dist'] retained_def)
  have ml: "m < length df" using m by (simp add: get_loc_SomeD)
  have dr: "drop (Suc m) (retained m df) = filter ?kept ?xs"
    using ml by (simp add: retained_def)
  have nc: "?nc = map cname (filter ?P ?xs)"
    by (simp add: numeric_cols_def kd dr)
  have dk: "distinct (map cname (retained m df))"
    using dist unfolding kd[symmetric] drop_columns_def by (simp add: distinct_map_filter)
  have dxs: "distinct (map cname ?xs)" using dist by (simp add: drop_map[symmetric])
  have len: "\<forall>c\<in>set df. length (cells c) = nrows df" using wf by (rule wf_frameD)
  \<comment> \<open>the type column\<close>
  have tt: "tipo' = tipo"
    using getcol_filter_SomeD[OF t'[unfolded drop_columns_def] dist] t by simp
  let ?mk = "map is_nota_credito (cells tipo)"
  have mk: "length ?mk = nrows df"
    using t len by (auto dest: getcol_SomeD)
  \<comment> \<open>the column at \<open>j\<close> is retained and is scaled\<close>
  let ?c = "df ! j"
  let ?b = "j - Suc m"
  have cb: "?c = ?xs ! ?b" "?b < length ?xs" using j by simp_all
  then have cj: "?c \<in> set ?xs" by (metis nth_mem)
  then have cr: "?c \<in> set (drop (Suc m) (retained m df))" using j(4) by (simp add: dr)
  then have cin: "?c \<in> set (retained m df)" by (rule in_set_dropD)
  have cnc: "cname ?c \<in> set ?nc" using cj j(3,4) by (auto simp: nc)
  have dnc: "distinct ?nc"
    unfolding nc using dxs by (simp add: distinct_map_filter)
  \<comment> \<open>the loop ran, so it found the rate column\<close>
  from cnc obtain col cols where cc: "?nc = col # cols" by (cases ?nc) auto
  from s obtain dd where "scale_step fp (map is_nota_credito (cells tipo')) col ?d1 = Inr dd"
    unfolding cc by (auto split: sum.splits)
  from scale_step_InrD[OF this] obtain rate where
    r1: "getcol ''Tipo Cambio'' ?d1 = Some rate" and rnum: "is_numeric (ctype rate)"
    by blast
  have rk': "getcol ''Tipo Cambio'' df = Some rate"
    using getcol_filter_SomeD[OF r1[unfolded drop_columns_def] dist] .
  from getcol_get_loc[OF this] obtain k where k: "get_loc ''Tipo Cambio'' df = Some k"
    and rdef: "df ! k = rate" by blast
  have kl: "k < length df" and rname: "cname (df ! k) = ''Tipo Cambio''"
    using k by (simp_all add: get_loc_SomeD)
  have rin: "rate \<in> set (retained m df)" using r1 unfolding kd by (simp add: getcol_SomeD)
  \<comment> \<open>which rate the pass for column \<open>j\<close> finds\<close>
  have seen: "(''Tipo Cambio'' \<in> set (takeWhile (\<lambda>n. n \<noteq> cname ?c) ?nc)) = (m < k \<and> k < j)"
  proof (cases "m < k")
    case True
    let ?a = "k - Suc m"
    have ra: "rate = ?xs ! ?a" "?a < length ?xs" using True kl rdef by simp_all
    have "rate \<in> set (take (Suc m) df) \<or> rate \<in> set (filter ?kept ?xs)"
      using rin by (auto simp: retained_def)
    moreover have "rate \<notin> set (take (Suc m) df)"
    proof
      assume "rate \<in> set (take (Suc m) df)"
      then obtain q where q: "q < Suc m" "q < length df" "df ! q = rate"
        by (auto simp: in_set_conv_nth)
      then have "q = k" using dist kl rdef
        by (metis distinct_conv_nth length_map nth_map)
      then show False using q True by simp
    qed
    ultimately have "?kept rate" by simp
    then have pa: "?P (?xs ! ?a)" using rnum ra by simp
    have pb: "?P (?xs ! ?b)" using j(3,4) cb by simp
    from takeWhile_position[OF dxs ra(2) pa cb(2) pb]
    have "(cname rate \<in> set (takeWhile (\<lambda>n. n \<noteq> cname ?c) ?nc)) = (?a < ?b)"
      unfolding nc using ra(1) cb(1) by simp
    moreover have "cname rate = ''Tipo Cambio''" using rdef rname by simp
    moreover have "(?a < ?b) = (k < j)" using True j by auto
    ultimately show ?thesis using True by simp
  next
    case False
    have "''Tipo Cambio'' \<notin> set ?nc"
    proof
      assume "''Tipo Cambio'' \<in> set ?nc"
      then obtain c where c: "c \<in> set ?xs" "cname c = ''Tipo Cambio''"
        by (auto simp: nc)
      then obtain q where q: "q < length ?xs" "?xs ! q = c" by (auto simp: in_set_conv_nth)
      then have "Suc m + q < length df" "df ! (Suc m + q) = c" using ml by auto
      then have "Suc m + q = k" using dist kl rname c(2)
        by (metis distinct_conv_nth length_map nth_map)
      then show False using False by simp
    qed
    then have "''Tipo Cambio'' \<notin> set (takeWhile (\<lambda>n. n \<noteq> cname ?c) ?nc)"
      by (meson set_takeWhileD)
    then show ?thesis using False by simp
  qed
  let ?R = "if m < k \<and> k < j then scale_col fp ?mk rate rate else rate"
  let ?sc = "scale_col fp ?mk ?R ?c"
  from scale_loop_seen[OF s r1 dnc]
  have d2: "df2 = map (\<lambda>c. if cname c \<in> set ?nc
                        then scale_col fp ?mk
                               (if ''Tipo Cambio'' \<in> set (takeWhile (\<lambda>n. n \<noteq> cname c) ?nc)
                                then scale_col fp ?mk rate rate else rate) c
                        else c) ?d1"
    unfolding tt .
  have "getcol (cname ?c) df2 =
        map_option (\<lambda>c. if cname c \<in> set ?nc
                        then scale_col fp ?mk
                               (if ''Tipo Cambio'' \<in> set (takeWhile (\<lambda>n. n \<noteq> cname c) ?nc)
                                then scale_col fp ?mk rate rate else rate) c
                        else c) (getcol (cname ?c) ?d1)"
    unfolding d2 by (rule getcol_map) simp
  then have g2: "getcol (cname ?c) df2 = Some ?sc"
    using getcol_distinct[OF dk cin] cnc seen by (simp add: kd)
  have g3: "getcol (cname ?c) df3 = Some ?sc"
    using format_fecha_getcol_numeric[OF f g2] by (simp add: numeric_scale_col)
  have g4: "getcol (cname ?c) out = Some (?sc\<lparr>cells := cells ?sc @ [col_sum fp (ctype ?sc) (cells ?sc)]\<rparr>)"
    unfolding o using g3 cnc by (rule getcol_append_totals)
  have lc: "length (cells ?c) = nrows df" using len j(2) by simp
  have lr: "length (cells rate) = nrows df" using len rk' by (auto dest: getcol_SomeD)
  have lrr: "length (cells (scale_col fp ?mk rate rate)) = nrows df"
    using mk lr lr by (rule length_scale_col)
  have lR: "length (cells ?R) = nrows df" using lr lrr by simp
  have ls: "length (cells ?sc) = nrows df"
    using mk lR lc by (rule length_scale_col)
  have mki: "?mk ! i = is_nota_credito (cells tipo ! i)" using i mk by simp
  have "cells (?sc\<lparr>cells := cells ?sc @ [col_sum fp (ctype ?sc) (cells ?sc)]\<rparr>) ! i = cells ?sc ! i"
    using i ls by (simp add: nth_append)
  also have "\<dots> = sign_fix (?mk ! i) (mul_cell fp (cells ?c ! i) (cells ?R ! i))"
    using i mk lR lc by (rule nth_scale_col)
  also have "cells ?R ! i = (if m < k \<and> k < j
                      then sign_fix (is_nota_credito (cells tipo ! i))
                             (mul_cell fp (cells (df ! k) ! i) (cells (df ! k) ! i))
                      else cells (df ! k) ! i)"
    using nth_scale_col[OF i mk lr lr, of fp] mki rdef by simp
  finally show ?thesis using g4 k mki by simp
qed

lemma sint_neg_pos:
  assumes "0 < sint (a::64 word)"
  shows "sint (- a) = - sint a"
proof -
  have "sint a < 2 ^ (LENGTH(64) - 1)" by (rule sint_lt)
  then have "signed_take_bit (LENGTH(64) - 1) (- sint a) = - sint a"
    using assms by (intro signed_take_bit_int_eq_self) simp_all
  then show ?thesis by (simp add: sint_word_minus)
qed

lemma gt0_neg_cell: "gt0 v \<Longrightarrow> \<not> gt0 (neg_cell v)"
proof (cases v)
  case (I64 a)
  assume "gt0 v"
  then have p: "0 < sint a" using I64 by simp
  then show ?thesis using I64 sint_neg_pos[OF p] by simp
next
  case (F64 x)
  assume "gt0 v"
  then show ?thesis using F64 by (cases x) auto
qed auto

lemma gt0_sign_fix: "\<not> gt0 (sign_fix True v)"
  by (simp add: sign_fix_def gt0_neg_cell)

lemma int64_product_wraps: "mul_cell fp (I64 (2 ^ 62)) (I64 4) = I64 0"
  by simp

lemma int64_sum_wraps:
  "col_sum fp Int64 [I64 (2 ^ 63 - 1), I64 1] = I64 (- (2 ^ 63)) \<and> \<not> gt0 (I64 (- (2 ^ 63)))"
  by (simp add: col_sum_def)

subsection \<open>Which columns are dropped\<close>

text \<open>
  Claim C4. For a loaded table that \<^verbatim>\<open>clean_data\<close> cleans, with the \<^verbatim>\<open>Moneda\<close> marker at
  position \<open>m\<close>: the columns of the output are, in their order, the columns up to and
  including the marker and those later columns that are neither entirely empty nor entirely
  zero. Said per column: the column at position \<open>i\<close> survives if and only if it is not after
  the marker or it is neither all empty nor all zero.
\<close>

theorem drop_iff_empty_or_zero:
  assumes "wf_frame df" and "clean_data fp df = Inr out" and "get_loc ''Moneda'' df = Some m"
  shows "columns out =
           columns (take (Suc m) df @ filter (\<lambda>c. \<not> (isna_all c \<or> eq0_all c)) (drop (Suc m) df)) \<and>
         (\<forall>i<length df. (cname (df ! i) \<in> set (columns out)) =
                          (i \<le> m \<or> \<not> (isna_all (df ! i) \<or> eq0_all (df ! i))))"
proof -
  from clean_data_shape[OF assms(1,2)] assms(3) obtain df3 where
    n: "map cname df3 = map cname (retained m df)" and
    o: "out = append_totals fp (numeric_cols m (retained m df)) df3"
    by auto
  have co: "columns out = columns (retained m df)"
    using n o by (simp add: columns_append_totals) (simp add: columns_def)
  have dist: "distinct (map cname df)" using assms(1) by (rule wf_frameD)
  have "\<forall>i<length df. (cname (df ! i) \<in> set (columns out)) =
                          (i \<le> m \<or> \<not> (isna_all (df ! i) \<or> eq0_all (df ! i)))"
  proof (intro allI impI)
    fix i assume i: "i < length df"
    have inj: "\<And>c. c \<in> set df \<Longrightarrow> cname c = cname (df ! i) \<Longrightarrow> c = df ! i"
      using dist i by (metis distinct_map inj_onD nth_mem)
    have "(cname (df ! i) \<in> set (columns (retained m df))) = (df ! i \<in> set (retained m df))"
    proof
      assume "cname (df ! i) \<in> set (columns (retained m df))"
      then obtain c where c: "c \<in> set (retained m df)" "cname c = cname (df ! i)"
        by (auto simp: columns_def)
      from c(1) have "c \<in> set df" by (auto simp: retained_def dest: in_set_takeD in_set_dropD)
      with inj c show "df ! i \<in> set (retained m df)" by auto
    next
      assume "df ! i \<in> set (retained m df)"
      then show "cname (df ! i) \<in> set (columns (retained m df))" by (simp add: columns_def)
    qed
    also have "\<dots> = (i \<le> m \<or> \<not> (isna_all (df ! i) \<or> eq0_all (df ! i)))"
    proof (cases "i \<le> m")
      case True
      then have "df ! i \<in> set (take (Suc m) df)"
        using i by (auto simp: in_set_conv_nth intro!: exI[of _ i])
      then show ?thesis using True by (simp add: retained_def)
    next
      case False
      then have "df ! i = drop (Suc m) df ! (i - Suc m)" using i by simp
      moreover have "i - Suc m < length (drop (Suc m) df)" using i False by simp
      ultimately have a: "df ! i \<in> set (drop (Suc m) df)" by (metis nth_mem)
      have "df ! i \<notin> set (take (Suc m) df)"
      proof
        assume "df ! i \<in> set (take (Suc m) df)"
        then obtain j where j: "j < Suc m" "j < length df" "df ! j = df ! i"
          by (auto simp: in_set_conv_nth)
        from dist have "distinct df" by (simp add: distinct_map)
        with j i have "j = i" by (simp add: nth_eq_iff_index_eq)
        with j False show False by simp
      qed
      then show ?thesis using a False by (simp add: retained_def)
    qed
    finally show "(cname (df ! i) \<in> set (columns out)) =
                   (i \<le> m \<or> \<not> (isna_all (df ! i) \<or> eq0_all (df ! i)))"
      by (simp add: co)
  qed
  then show ?thesis using co by (simp add: retained_def)
qed

text \<open>
  On the example ledger the all-zero column \<^verbatim>\<open>Exento\<close> and the empty column \<^verbatim>\<open>Otros\<close> go,
  while \<^verbatim>\<open>IVA\<close>, with its single non-zero value, stays.
\<close>

theorem drop_iff_empty_or_zero_witness:
  "wf_frame ledger_example \<and> clean_data unrounded ledger_example = Inr ledger_example_cleaned \<and>
   get_loc ''Moneda'' ledger_example = Some 3 \<and>
   columns ledger_example_cleaned = [''Fecha'', ''Tipo'', ''Tipo Cambio'', ''Moneda'', ''Neto'', ''IVA''] \<and>
   ''Exento'' \<notin> set (columns ledger_example_cleaned) \<and>
   ''IVA'' \<in> set (columns ledger_example_cleaned)"
proof -
  have w: "wf_frame ledger_example" by code_simp
  have c: "clean_data unrounded ledger_example = Inr ledger_example_cleaned" by code_simp
  have m: "get_loc ''Moneda'' ledger_example = Some 3" by code_simp
  have "columns ledger_example_cleaned =
          [''Fecha'', ''Tipo'', ''Tipo Cambio'', ''Moneda'', ''Neto'', ''IVA'']"
    using drop_iff_empty_or_zero[OF w c m]
    by (simp add: ledger_example_def columns_def isna_all_def eq0_all_def)
  then show ?thesis using w c m by simp
qed

subsection \<open>The sign of credit notes\<close>

text \<open>
  Claim C1. Take a loaded table with the \<^verbatim>\<open>Tipo\<close> and \<^verbatim>\<open>Moneda\<close> columns that \<^verbatim>\<open>clean_data\<close>
  cleans, a numeric column after the marker that is not dropped, and a data row. Then the
  table has the exchange-rate column, and the output holds in that row the scaled amount,
  negated exactly when the row's \<^verbatim>\<open>Tipo\<close> matches the credit-note pattern and the scaled
  amount is positive. So a scaled amount that is already negative (or zero, or empty) is
  left as it is, a row whose type does not match is never negated, whatever the sign of its
  amount, and in a row whose type matches no amount is positive in the output.

  The scaled amount is the product, in the arithmetic of the column, of the loaded amount
  and the rate as the loop finds it. That is the loaded rate, except when the rate column
  itself stands after the marker and before the amount column: then it is an amount column
  like the others, and the loop has already replaced it by its own square, sign-corrected.
\<close>

theorem credit_note_sign:
  assumes "wf_frame df" and "clean_data fp df = Inr out"
    and "get_loc ''Moneda'' df = Some m"
    and "getcol ''Tipo'' df = Some tipo"
    and "m < j" and "j < length df" and "is_numeric (ctype (df ! j))"
    and "\<not> (isna_all (df ! j) \<or> eq0_all (df ! j))"
    and "i < nrows df"
  shows "\<exists>k oc. get_loc ''Tipo Cambio'' df = Some k \<and>
           getcol (cname (df ! j)) out = Some oc \<and>
           (let is_nc = is_nota_credito (cells tipo ! i);
                r = cells (df ! k) ! i;
                rr = mul_cell fp r r;
                rate = (if m < k \<and> k < j
                        then (if is_nc \<and> gt0 rr then neg_cell rr else rr) else r);
                scaled = mul_cell fp (cells (df ! j) ! i) rate
            in cells oc ! i = (if is_nc \<and> gt0 scaled then neg_cell scaled else scaled) \<and>
               (is_nc \<longrightarrow> \<not> gt0 (cells oc ! i)))"
proof -
  from clean_data_scaled_cell[OF assms]
  obtain k oc where k: "get_loc ''Tipo Cambio'' df = Some k"
    and g: "getcol (cname (df ! j)) out = Some oc"
    and v: "cells oc ! i =
                sign_fix (is_nota_credito (cells tipo ! i))
                  (mul_cell fp (cells (df ! j) ! i)
                     (if m < k \<and> k < j
                      then sign_fix (is_nota_credito (cells tipo ! i))
                             (mul_cell fp (cells (df ! k) ! i) (cells (df ! k) ! i))
                      else cells (df ! k) ! i))"
    by blast
  have "is_nota_credito (cells tipo ! i) \<longrightarrow> \<not> gt0 (cells oc ! i)"
    unfolding v by (simp add: gt0_sign_fix)
  then show ?thesis using k g v
    by (intro exI[of _ k] exI[of _ oc]) (simp add: sign_fix_def Let_def)
qed

text \<open>
  On the example ledger, column \<^verbatim>\<open>Neto\<close> (position 4): the invoice keeps 100; the credit note
  of 50 at rate 2 becomes -100; the credit note already reported as -30 stays -30.
\<close>

theorem credit_note_sign_witness:
  "wf_frame ledger_example \<and> clean_data unrounded ledger_example = Inr ledger_example_cleaned \<and>
   get_loc ''Tipo Cambio'' ledger_example = Some 2 \<and>
   (\<exists>oc. getcol ''Neto'' ledger_example_cleaned = Some oc \<and>
         cells oc ! 0 = F64 (Finite 100) \<and> cells oc ! 1 = F64 (Finite (- 100)) \<and>
         cells oc ! 2 = F64 (Finite (- 30)))"
proof -
  have w: "wf_frame ledger_example" by code_simp
  have c: "clean_data unrounded ledger_example = Inr ledger_example_cleaned" by code_simp
  have m: "get_loc ''Moneda'' ledger_example = Some 3" by code_simp
  have k: "get_loc ''Tipo Cambio'' ledger_example = Some 2" by code_simp
  have t: "getcol ''Tipo'' ledger_example = Some (ledger_example ! 1)" by code_simp
  have j: "(3::nat) < 4" "4 < length ledger_example" "is_numeric (ctype (ledger_example ! 4))"
    "\<not> (isna_all (ledger_example ! 4) \<or> eq0_all (ledger_example ! 4))" by code_simp+
  have n: "0 < nrows ledger_example" "1 < nrows ledger_example" "2 < nrows ledger_example"
    by code_simp+
  have g: "getcol ''Neto'' ledger_example_cleaned = Some (ledger_example_cleaned ! 4)"
    by code_simp
  have nm: "cname (ledger_example ! 4) = ''Neto''" by code_simp
  note ev = ledger_example_def pat_nc_def pat_nota_de_credito_def unrounded_def
    unrounded_mul_def of_float_def Let_def
  have "cells (ledger_example_cleaned ! 4) ! 0 = F64 (Finite 100)"
    using credit_note_sign[OF w c m t j n(1)] unfolding k nm g by (simp add: ev)
  moreover have "cells (ledger_example_cleaned ! 4) ! 1 = F64 (Finite (- 100))"
    using credit_note_sign[OF w c m t j n(2)] unfolding k nm g by (simp add: ev)
  moreover have "cells (ledger_example_cleaned ! 4) ! 2 = F64 (Finite (- 30))"
    using credit_note_sign[OF w c m t j n(3)] unfolding k nm g by (simp add: ev)
  ultimately show ?thesis using w c k g by simp
qed

subsection \<open>The totals row\<close>



section \<open>Properties of \<^verbatim>\<open>detect_month\<close>\<close>

lemma find_filter_neq:
  "\<not> P x \<Longrightarrow> find P (filter (\<lambda>y. y \<noteq> x) ys) = find P ys"
  by (induction ys) auto

lemma find_unique: "find P (unique xs) = find P xs"
  by (induction xs) (auto simp: find_filter_neq)

lemma set_unique [simp]: "set (unique xs) = set xs"
  by (induction xs) auto

lemma idxmax_from_head:
  "\<forall>p\<in>set rest. snd p \<le> n \<Longrightarrow> idxmax_from (k, n) rest = k"
  by (induction rest) auto

lemma hd_insort_key:
  "hd (insort_key f x ys) = (if ys = [] \<or> f x \<le> f (hd ys) then x else hd ys)"
  by (cases ys) auto

lemma sort_key_Nil_iff [simp]: "sort_key f xs = [] \<longleftrightarrow> xs = []"
  by (metis length_sort list.size(3) length_0_conv)

lemma hd_sort_key:
  "xs \<noteq> [] \<Longrightarrow> find (\<lambda>x. \<forall>y\<in>set xs. f x \<le> f y) xs = Some (hd (sort_key f xs))"
proof (induction xs)
  case Nil
  then show ?case by simp
next
  case (Cons x xs)
  show ?case
  proof (cases "xs = []")
    case True
    then show ?thesis by simp
  next
    case False
    let ?h = "hd (sort_key f xs)"
    from Cons.IH[OF False] have ih: "find (\<lambda>x. \<forall>y\<in>set xs. f x \<le> f y) xs = Some ?h" .
    then have hmin: "\<forall>y\<in>set xs. f ?h \<le> f y" and hin: "?h \<in> set xs"
      by (auto simp: find_Some_iff)
    have s: "sort_key f (x # xs) = insort_key f x (sort_key f xs)" by simp
    show ?thesis
    proof (cases "f x \<le> f ?h")
      case True
      then have "\<forall>y\<in>set (x # xs). f x \<le> f y" using hmin by auto
      then show ?thesis using True False by (simp add: hd_insort_key)
    next
      case nle: False
      then have nx: "\<not> (\<forall>y\<in>set (x # xs). f x \<le> f y)" using hin by auto
      have "find (\<lambda>z. \<forall>y\<in>set (x # xs). f z \<le> f y) xs = find (\<lambda>z. \<forall>y\<in>set xs. f z \<le> f y) xs"
      proof (rule find_cong[OF refl])
        fix z assume "z \<in> set xs"
        show "(\<forall>y\<in>set (x # xs). f z \<le> f y) = (\<forall>y\<in>set xs. f z \<le> f y)"
          using nle hin by auto
      qed
      then have "find (\<lambda>z. \<forall>y\<in>set (x # xs). f z \<le> f y) (x # xs) = Some ?h"
        using nx ih by (simp only: find.simps if_False)
      moreover have "hd (sort_key f (x # xs)) = ?h"
        using nle False by (simp add: hd_insort_key)
      ultimately show ?thesis by (simp only:)
    qed
  qed
qed

lemma find_map: "find P (map f xs) = map_option f (find (\<lambda>x. P (f x)) xs)"
  by (induction xs) auto

lemma idxmax_value_counts:
  "idxmax (value_counts xs) = find (is_modal xs) xs"
proof (cases "xs = []")
  case True
  then show ?thesis by (simp add: idxmax_def value_counts_def)
next
  case False
  let ?f = "\<lambda>(k, n). - int n" 
  let ?l = "map (\<lambda>k. (k, count_list xs k)) (unique xs)"
  let ?s = "sort_key ?f ?l"
  have ne: "?l \<noteq> []" using False by (cases xs) auto
  then have sne: "?s \<noteq> []" by simp
  then obtain p rest where pr: "?s = p # rest" by (cases ?s) auto
  have srt: "sorted (map ?f ?s)" by (rule sorted_sort_key)
  have "\<forall>q\<in>set rest. ?f p \<le> ?f q" using srt unfolding pr by auto
  then have "\<forall>q\<in>set rest. snd q \<le> snd p" by (auto simp: case_prod_beta)
  then have "idxmax_from (fst p, snd p) rest = fst p" by (rule idxmax_from_head)
  then have a: "idxmax (value_counts xs) = Some (fst (hd ?s))"
    by (simp add: idxmax_def value_counts_def pr)
  from hd_sort_key[OF ne, of ?f] have b: "find (\<lambda>x. \<forall>y\<in>set ?l. ?f x \<le> ?f y) ?l = Some (hd ?s)" .
  have c: "find (\<lambda>x. \<forall>y\<in>set ?l. ?f x \<le> ?f y) ?l
        = map_option (\<lambda>k. (k, count_list xs k)) (find (is_modal xs) (unique xs))"
    by (simp add: find_map o_def is_modal_def[abs_def])
  from b c have "map_option (\<lambda>k. (k, count_list xs k)) (find (is_modal xs) (unique xs)) = Some (hd ?s)"
    by simp
  then obtain k where k: "find (is_modal xs) (unique xs) = Some k" "hd ?s = (k, count_list xs k)"
    by (auto simp: map_option_eq_Some)
  then show ?thesis using a by (simp add: find_unique)
qed

lemma ex_modal: "xs \<noteq> [] \<Longrightarrow> \<exists>k\<in>set xs. is_modal xs k"
proof -
  assume ne: "xs \<noteq> []"
  let ?S = "count_list xs ` set xs"
  have "Max ?S \<in> ?S" using ne by (intro Max_in) auto
  then obtain k where k: "k \<in> set xs" "count_list xs k = Max ?S" by auto
  have "\<forall>k'\<in>set xs. count_list xs k' \<le> Max ?S" by simp
  with k have "is_modal xs k" by (simp add: is_modal_def)
  with k show ?thesis by blast
qed

lemma mode_Cons:
  assumes "mode xs = y # ys"
  shows "y \<in> set xs \<and> is_modal xs y \<and> (\<forall>y'\<in>set xs. is_modal xs y' \<longrightarrow> y \<le> y')"
proof -
  let ?m = "filter (is_modal xs) (unique xs)"
  have m: "mode xs = sort ?m" by (simp add: mode_def)
  have "set (mode xs) = set ?m" unfolding m by simp
  moreover have "sorted (mode xs)" unfolding m by simp
  ultimately show ?thesis using assms by auto
qed

lemma mode_nonempty: "xs \<noteq> [] \<Longrightarrow> mode xs \<noteq> []"
proof -
  assume "xs \<noteq> []"
  then obtain k where "k \<in> set xs" "is_modal xs k" using ex_modal by blast
  then have "k \<in> set (mode xs)" by (simp add: mode_def)
  then show ?thesis by auto
qed

lemma to_datetime_cases: "to_datetime x = NaN \<or> is_date (to_datetime x)"
  by (cases x) (auto split: option.splits)

lemma remaining_dates:
  assumes "wf_frame df" "getcol ''Fecha'' df = Some f" "\<not> is_numeric (ctype f)"
  shows "list_all is_date (fecha_after_dropna f)"
proof (cases "ctype f = Object")
  case True
  then show ?thesis
    using to_datetime_cases by (auto simp: fecha_after_dropna_def list_all_iff)
next
  case False
  with assms(3) have dt: "ctype f = Datetime64"
    by (cases "ctype f") (auto simp: is_numeric_def)
  from assms(2) have "f \<in> set df" by (simp add: getcol_SomeD)
  with assms(1) have "\<forall>x\<in>set (cells f). cell_fits (ctype f) x" by (auto dest: wf_frameD(3))
  then have "\<forall>x\<in>set (cells f). x = NaN \<or> is_date x"
    unfolding dt
  proof (intro ballI)
    fix x assume a: "\<forall>x\<in>set (cells f). cell_fits Datetime64 x" and x: "x \<in> set (cells f)"
    then have "cell_fits Datetime64 x" by blast
    then show "x = NaN \<or> is_date x" by (cases x) auto
  qed
  then show ?thesis using False by (auto simp: fecha_after_dropna_def list_all_iff)
qed

lemma dates_of_nonempty: "list_all is_date xs \<Longrightarrow> xs \<noteq> [] \<Longrightarrow> dates_of xs \<noteq> []"
  by (cases xs; cases "hd xs") auto

lemma detect_month_Inr:
  assumes f: "getcol ''Fecha'' df = Some f" and nn: "\<not> is_numeric (ctype f)"
    and ne: "dates_of (fecha_after_dropna f) \<noteq> []"
  shows "\<exists>m y. detect_month df = Inr (m, y) \<and>
          find (is_modal (map month_of (dates_of (fecha_after_dropna f))))
               (map month_of (dates_of (fecha_after_dropna f))) = Some m \<and>
          mode (map year_of (filter (\<lambda>t. month_of t = m) (dates_of (fecha_after_dropna f)))) \<noteq> [] \<and>
          y = hd (mode (map year_of (filter (\<lambda>t. month_of t = m) (dates_of (fecha_after_dropna f)))))"
proof -
  let ?dates = "dates_of (fecha_after_dropna f)"
  let ?months = "map month_of ?dates"
  from ne have rne: "fecha_after_dropna f \<noteq> []" by auto
  have mne: "?months \<noteq> []" using ne by simp
  then obtain k where k: "k \<in> set ?months" "is_modal ?months k" using ex_modal by blast
  then obtain m where m: "find (is_modal ?months) ?months = Some m"
    by (cases "find (is_modal ?months) ?months") (auto simp: find_None_iff)
  then have im: "idxmax (value_counts ?months) = Some m" by (simp add: idxmax_value_counts)
  from m have "m \<in> set ?months" by (auto simp: find_Some_iff)
  then have "filter (\<lambda>t. month_of t = m) ?dates \<noteq> []"
    by (auto simp: filter_empty_conv)
  then have "map year_of (filter (\<lambda>t. month_of t = m) ?dates) \<noteq> []" by simp
  then have mo: "mode (map year_of (filter (\<lambda>t. month_of t = m) ?dates)) \<noteq> []"
    by (rule mode_nonempty)
  then obtain y ys where y: "mode (map year_of (filter (\<lambda>t. month_of t = m) ?dates)) = y # ys"
    by (cases "mode (map year_of (filter (\<lambda>t. month_of t = m) ?dates))") auto
  have "detect_month df = Inr (m, y)"
    using f nn rne im y by (simp add: detect_month_def Let_def)
  then show ?thesis using m mo y by simp
qed

lemma is_digit_cases:
  "is_digit c = (c = CHR ''0'' \<or> c = CHR ''1'' \<or> c = CHR ''2'' \<or> c = CHR ''3'' \<or> c = CHR ''4'' \<or>
                 c = CHR ''5'' \<or> c = CHR ''6'' \<or> c = CHR ''7'' \<or> c = CHR ''8'' \<or> c = CHR ''9'')"
  by (auto simp: is_digit_def)

lemma digit_code: "is_digit c \<Longrightarrow> (of_char c :: nat) = digit_val c + 48"
  unfolding is_digit_cases digit_val_def by (elim disjE) simp_all


lemma digit_eq_iff: "is_digit c \<Longrightarrow> is_digit c' \<Longrightarrow> (c = c') = (digit_val c = digit_val c')"
proof -
  assume a: "is_digit c" "is_digit c'"
  have "(c = c') = ((of_char c :: nat) = of_char c')" by simp
  then show ?thesis using digit_code[OF a(1)] digit_code[OF a(2)] by simp
qed





































subsection \<open>The predominant month and its year\<close>

text \<open>
  Claim C5, as the specification words it, does not hold. With one row in April followed by
  one row in March the two months tie, the calendar order would give March, and
  \<^verbatim>\<open>detect_month\<close> gives April, the month that comes first in the rows. With one row in
  March 2025 followed by one row in March 2024 the two years tie, the first one met is 2025,
  and \<^verbatim>\<open>detect_month\<close> gives 2024, the smallest: \<^verbatim>\<open>mode()\<close> sorts its result.
\<close>

theorem month_tie_counterexample:
  "detect_month tie_example = Inr (4, 2024) \<and> spec_winning_month tie_example = Some 3 \<and>
   detect_month year_tie_example = Inr (3, 2024) \<and> spec_year year_tie_example 3 = Some 2025"
  by code_simp

text \<open>
  Claim C5, amended. For a loaded table whose date column is a text or date column with at
  least one row whose date parses, \<^verbatim>\<open>detect_month\<close> returns a month and a year. The month
  has the largest count among the rows whose date parses and, of the months with that
  count, it is the one whose first row comes first in the table. The year is a year of a
  row of that month, no year is more frequent among those rows, and of the most frequent
  years it is the smallest.
\<close>

theorem predominant_month_year:
  assumes "wf_frame df" and "getcol ''Fecha'' df = Some f" and "\<not> is_numeric (ctype f)"
    and "fecha_after_dropna f \<noteq> []"
  shows "\<exists>m y. detect_month df = Inr (m, y) \<and>
           (let dates = dates_of (fecha_after_dropna f);
                months = map month_of dates;
                years = map year_of (filter (\<lambda>t. month_of t = m) dates)
            in find (is_modal months) months = Some m \<and>
               y \<in> set years \<and> is_modal years y \<and>
               (\<forall>y'\<in>set years. is_modal years y' \<longrightarrow> y \<le> y'))"
proof -
  let ?dates = "dates_of (fecha_after_dropna f)"
  have "list_all is_date (fecha_after_dropna f)"
    using assms(1,2,3) by (rule remaining_dates)
  then have "?dates \<noteq> []" using assms(4) by (rule dates_of_nonempty)
  from detect_month_Inr[OF assms(2,3) this]
  obtain m y where d: "detect_month df = Inr (m, y)"
    and m: "find (is_modal (map month_of ?dates)) (map month_of ?dates) = Some m"
    and ne: "mode (map year_of (filter (\<lambda>t. month_of t = m) ?dates)) \<noteq> []"
    and y: "y = hd (mode (map year_of (filter (\<lambda>t. month_of t = m) ?dates)))"
    by blast
  from ne y obtain ys where
    "mode (map year_of (filter (\<lambda>t. month_of t = m) ?dates)) = y # ys"
    by (cases "mode (map year_of (filter (\<lambda>t. month_of t = m) ?dates))") auto
  from mode_Cons[OF this] d m show ?thesis
    unfolding Let_def by blast
qed

text \<open>
  The scenario of the specification: two rows in March and one in April of 2024 give
  month 3 and year 2024.
\<close>

theorem predominant_month_year_witness:
  "wf_frame ledger_example \<and> getcol ''Fecha'' ledger_example = Some (ledger_example ! 0) \<and>
   fecha_after_dropna (ledger_example ! 0) = [Date 2024 3 1, Date 2024 3 15, Date 2024 4 2] \<and>
   detect_month ledger_example = Inr (3, 2024)"
proof -
  have w: "wf_frame ledger_example" by code_simp
  have g: "getcol ''Fecha'' ledger_example = Some (ledger_example ! 0)" by code_simp
  have n: "\<not> is_numeric (ctype (ledger_example ! 0))" by code_simp
  have r: "fecha_after_dropna (ledger_example ! 0) = [Date 2024 3 1, Date 2024 3 15, Date 2024 4 2]"
    by code_simp
  then have e: "fecha_after_dropna (ledger_example ! 0) \<noteq> []" by simp
  from predominant_month_year[OF w g n e]
  obtain m y where d: "detect_month ledger_example = Inr (m, y)"
    and f: "find (is_modal (map month_of (dates_of (fecha_after_dropna (ledger_example ! 0)))))
              (map month_of (dates_of (fecha_after_dropna (ledger_example ! 0)))) = Some m"
    and y: "y \<in> set (map year_of (filter (\<lambda>t. month_of t = m)
                (dates_of (fecha_after_dropna (ledger_example ! 0)))))"
    unfolding Let_def by blast
  from f have m: "m = 3" unfolding r by (simp add: month_of_def is_modal_def)
  from y have "y = 2024" unfolding r m by (simp add: month_of_def year_of_def)
  with d m w g r show ?thesis by simp
qed

subsection \<open>No valid date\<close>




subsection \<open>The number of rows\<close>

text \<open>
  Claim C10. A cleaned table has exactly one row more than the loaded table: every column
  of the output has one cell per input row and one more, the totals. So the output length
  minus one is the number of input rows, and that is the \<^verbatim>\<open>rows_processed\<close> that
  \<^verbatim>\<open>process_excel_file\<close> reports.
\<close>

theorem one_more_row:
  assumes wf: "wf_frame df" and cd: "clean_data fp df = Inr out"
  shows "nrows out = nrows df + 1 \<and>
         list_all (\<lambda>c. length (cells c) = nrows df + 1) out \<and>
         (\<forall>info. process_excel_file fp df = Inr info \<longrightarrow> rows_processed info = int (nrows df))"
proof -
  from clean_data_shape[OF wf cd] obtain m df3 where
    m: "get_loc ''Moneda'' df = Some m" and
    n: "map cname df3 = map cname (retained m df)" and
    l: "\<forall>c\<in>set df3. length (cells c) = nrows df" and
    o: "out = append_totals fp (numeric_cols m (retained m df)) df3"
    by auto
  from m have "m < length df" by (simp add: get_loc_SomeD)
  then have "retained m df \<noteq> []" by (auto simp: retained_def)
  then have "df3 \<noteq> []" using n by (metis map_is_Nil_conv)
  then obtain c cs where d3: "df3 = c # cs" by (cases df3) auto
  have a: "\<forall>c\<in>set out. length (cells c) = nrows df + 1"
    using l o by (auto simp: append_totals_def)
  moreover have "out \<noteq> []" using o d3 by (simp add: append_totals_def)
  ultimately have r: "nrows out = nrows df + 1"
    by (cases out) (auto simp: nrows_def)
  have "\<forall>info. process_excel_file fp df = Inr info \<longrightarrow> rows_processed info = int (nrows df)"
    using cd r by (auto simp: process_excel_file_def split: sum.splits)
  then show ?thesis using a r by (simp add: list_all_iff)
qed

text \<open>The example ledger has three rows; its cleaned table has four, and three are reported.\<close>

theorem one_more_row_witness:
  "wf_frame ledger_example \<and> clean_data unrounded ledger_example = Inr ledger_example_cleaned \<and>
   nrows ledger_example = 3 \<and> nrows ledger_example_cleaned = 4 \<and>
   (\<exists>info. process_excel_file unrounded ledger_example = Inr info \<and> rows_processed info = 3)"
proof -
  have w: "wf_frame ledger_example" by code_simp
  have c: "clean_data unrounded ledger_example = Inr ledger_example_cleaned" by code_simp
  have n: "nrows ledger_example = 3" by code_simp
  have "\<not> isl (process_excel_file unrounded ledger_example)" by code_simp
  then obtain info where i: "process_excel_file unrounded ledger_example = Inr info"
    by (cases "process_excel_file unrounded ledger_example") auto
  from one_more_row[OF w c] i n have "nrows ledger_example_cleaned = 4"
    and "rows_processed info = 3" by simp_all
  with w c n i show ?thesis by blast
qed

section \<open>Properties of \<^verbatim>\<open>detect_info_from_header\<close>\<close>

lemma starts_with_append: "starts_with p (p @ s)"
  by (simp add: starts_with_def)

lemma contains_prefix: "contains p (p @ s)"
proof (cases "p @ s")
  case Nil
  then show ?thesis by simp
next
  case (Cons c t)
  have "starts_with p (p @ s)" by (rule starts_with_append)
  then show ?thesis unfolding Cons by simp
qed

lemma contains_append: "contains p (a @ p @ b)"
proof (induction a)
  case Nil
  then show ?case by (simp add: contains_prefix)
next
  case (Cons c a)
  then show ?case by simp
qed

lemma contains_msg_header: "contains text (msg_header text)"
proof -
  have "msg_header text =
        (''No se pudo detectar CUIT o tipo en el encabezado.'' @ [CHR 0x0A] @
         ''Encabezado encontrado: '' @ [CHR 0x27]) @ text @
        ([CHR 0x27, CHR 0x0A] @
         ''Aseg'' @ [CHR 0xFA] @ ''rese de que la primera fila contenga algo como:'' @ [CHR 0x0A] @
         [CHR 0x27] @ ''Mis Comprobantes Emitidos - CUIT 30716820080'' @ [CHR 0x27])"
    by (simp add: msg_header_def)
  then show ?thesis by (simp only: contains_append)
qed

lemma eleven_digits_Some:
  "eleven_digits s = Some d \<Longrightarrow> length d = 11 \<and> list_all is_digit d \<and> d = take 11 s"
  by (auto simp: eleven_digits_def split: if_splits)

lemma after_marker_Some: "after_marker s = Some d \<Longrightarrow> length d = 11 \<and> list_all is_digit d"
  by (auto simp: after_marker_def Let_def dest!: eleven_digits_Some)

lemma cuit_after_marker_Some:
  "cuit_after_marker s = Some d \<Longrightarrow> length d = 11 \<and> list_all is_digit d"
proof (induction s)
  case Nil
  then show ?case by simp
next
  case (Cons c s)
  then show ?case
    by (auto split: option.splits if_splits dest: after_marker_Some)
qed

lemma bare_run_Some: "bare_run prev s = Some d \<Longrightarrow> length d = 11 \<and> list_all is_digit d"
proof (induction s arbitrary: prev)
  case Nil
  then show ?case by simp
next
  case (Cons c s)
  show ?case
  proof (cases "\<not> prev \<and> eleven_digits (c # s) \<noteq> None \<and>
         (case drop 11 (c # s) of [] \<Rightarrow> True | d # _ \<Rightarrow> \<not> is_word d)")
    case True
    then have "eleven_digits (c # s) = Some d" using Cons.prems by simp
    then show ?thesis by (auto dest: eleven_digits_Some)
  next
    case False
    then have "bare_run (is_word c) s = Some d" using Cons.prems by auto
    then show ?thesis by (rule Cons.IH)
  qed
qed

lemma detect_cuit_Some: "detect_cuit text = Some d \<Longrightarrow> length d = 11 \<and> list_all is_digit d"
  by (auto simp: detect_cuit_def cuit_bare_def split: option.splits
           dest: cuit_after_marker_Some bare_run_Some)

lemma digit_not_space: "is_digit c \<Longrightarrow> \<not> is_space c"
  by (auto simp: is_digit_def is_space_def)

lemma digit_not_sep: "is_digit c \<Longrightarrow> c \<noteq> CHR '':'' \<and> c \<noteq> CHR ''-''"
  by (auto simp: is_digit_def)

lemma sep_not_space: "\<not> is_space (CHR '':'')" "\<not> is_space (CHR ''-'')"
  by (simp_all add: is_space_def)

lemma eleven_digits_append:
  "length d = 11 \<Longrightarrow> list_all is_digit d \<Longrightarrow> eleven_digits (d @ post) = Some d"
  by (simp add: eleven_digits_def)

lemma dropWhile_spaces:
  "list_all is_space ws \<Longrightarrow> x \<noteq> [] \<Longrightarrow> \<not> is_space (hd x) \<Longrightarrow> dropWhile is_space (ws @ x) = x"
  by (induction ws) (auto simp: neq_Nil_conv)

lemma after_marker_complete:
  assumes "list_all is_space ws1" "sep = [] \<or> sep = '':'' \<or> sep = ''-''" "list_all is_space ws2"
    "length d = 11" "list_all is_digit d"
  shows "after_marker (ws1 @ sep @ ws2 @ d @ post) = Some d"
proof -
  obtain c r where d: "d = c # r" using assms(4) by (cases d) auto
  have c: "is_digit c" using assms(5) d by simp
  have x: "d @ post \<noteq> []" "\<not> is_space (hd (d @ post))"
    using d c by (simp_all add: digit_not_space)
  have e: "eleven_digits (d @ post) = Some d" using assms(4,5) by (rule eleven_digits_append)
  have w2: "dropWhile is_space (ws2 @ d @ post) = d @ post"
    using assms(3) x by (rule dropWhile_spaces)
  from assms(2) consider "sep = []" | "sep = '':''" | "sep = ''-''" by blast
  then show ?thesis
  proof cases
    case 1
    have "dropWhile is_space (ws1 @ ws2 @ d @ post) = d @ post"
      using dropWhile_spaces[of "ws1 @ ws2" "d @ post"] assms(1,3) x by simp
    then show ?thesis using 1 e d c digit_not_sep[OF c] x
      by (simp add: after_marker_def Let_def digit_not_space)
  next
    case 2
    have "dropWhile is_space (ws1 @ '':'' @ ws2 @ d @ post) = '':'' @ ws2 @ d @ post"
      using assms(1) by (intro dropWhile_spaces) (simp_all add: sep_not_space)
    then show ?thesis using 2 e w2 by (simp add: after_marker_def Let_def)
  next
    case 3
    have "dropWhile is_space (ws1 @ ''-'' @ ws2 @ d @ post) = ''-'' @ ws2 @ d @ post"
      using assms(1) by (intro dropWhile_spaces) (simp_all add: sep_not_space)
    then show ?thesis using 3 e w2 by (simp add: after_marker_def Let_def)
  qed
qed

lemma sep_split:
  "s1 = (case s1 of [] \<Rightarrow> [] | c # r \<Rightarrow> if c = CHR '':'' \<or> c = CHR ''-'' then [c] else []) @
        (case s1 of [] \<Rightarrow> s1 | c # r \<Rightarrow> if c = CHR '':'' \<or> c = CHR ''-'' then r else s1)"
  by (cases s1) auto

lemma sep_cases:
  "(case s1 of [] \<Rightarrow> [] | c # r \<Rightarrow> if c = CHR '':'' \<or> c = CHR ''-'' then [c] else []) = [] \<or>
   (case s1 of [] \<Rightarrow> [] | c # r \<Rightarrow> if c = CHR '':'' \<or> c = CHR ''-'' then [c] else []) = '':'' \<or>
   (case s1 of [] \<Rightarrow> [] | c # r \<Rightarrow> if c = CHR '':'' \<or> c = CHR ''-'' then [c] else []) = ''-''"
  by (cases s1) auto

lemma after_marker_sound:
  assumes "after_marker x = Some d"
  shows "\<exists>ws1 sep ws2 post. x = ws1 @ sep @ ws2 @ d @ post \<and> list_all is_space ws1 \<and>
           (sep = [] \<or> sep = '':'' \<or> sep = ''-'') \<and> list_all is_space ws2 \<and>
           length d = 11 \<and> list_all is_digit d"
proof -
  let ?ws1 = "takeWhile is_space x"
  let ?s1 = "dropWhile is_space x"
  let ?sep = "(case ?s1 of [] \<Rightarrow> [] | c # r \<Rightarrow> if c = CHR '':'' \<or> c = CHR ''-'' then [c] else [])"
  let ?s2 = "(case ?s1 of [] \<Rightarrow> ?s1 | c # r \<Rightarrow> if c = CHR '':'' \<or> c = CHR ''-'' then r else ?s1)"
  let ?ws2 = "takeWhile is_space ?s2"
  let ?s3 = "dropWhile is_space ?s2"
  from assms have e: "eleven_digits ?s3 = Some d" by (simp add: after_marker_def Let_def)
  then have d: "length d = 11" "list_all is_digit d" "d = take 11 ?s3"
    by (auto dest: eleven_digits_Some)
  have "x = ?ws1 @ ?s1" by simp
  moreover have "?s1 = ?sep @ ?s2" by (rule sep_split)
  moreover have "?s2 = ?ws2 @ ?s3" by simp
  moreover have "?s3 = d @ drop 11 ?s3" using d(3) by simp
  ultimately have "x = ?ws1 @ ?sep @ ?ws2 @ d @ drop 11 ?s3" by metis
  moreover have "list_all is_space ?ws1" "list_all is_space ?ws2"
    by (auto simp: list_all_iff dest: set_takeWhileD)
  moreover have "?sep = [] \<or> ?sep = '':'' \<or> ?sep = ''-''" by (rule sep_cases)
  ultimately show ?thesis using d(1,2) by blast
qed

lemma cuit_after_marker_sound: "cuit_after_marker s = Some d \<Longrightarrow> marked_run s d"
proof (induction s)
  case Nil
  then show ?case by simp
next
  case (Cons c s)
  show ?case
  proof (cases "marker_here (c # s) \<and> after_marker (drop 4 (c # s)) = Some d")
    case True
    from after_marker_sound[of "drop 4 (c # s)" d] True obtain ws1 sep ws2 post where
      x: "drop 4 (c # s) = ws1 @ sep @ ws2 @ d @ post" and
      p: "list_all is_space ws1" "sep = [] \<or> sep = '':'' \<or> sep = ''-''" "list_all is_space ws2"
         "length d = 11" "list_all is_digit d"
      by blast
    have "c # s = [] @ take 4 (c # s) @ ws1 @ sep @ ws2 @ d @ post"
      by (simp only: x[symmetric] append_Nil append_take_drop_id)
    moreover have "lower (take 4 (c # s)) = ''cuit''" using True by (simp add: marker_here_def)
    ultimately show ?thesis using p unfolding marked_run_def by blast
  next
    case False
    then have "cuit_after_marker s = Some d" using Cons.prems
      by (auto split: option.splits if_splits)
    from Cons.IH[OF this] obtain pre mk ws1 sep ws2 post where
      "s = pre @ mk @ ws1 @ sep @ ws2 @ d @ post" "lower mk = ''cuit''"
      "list_all is_space ws1" "sep = [] \<or> sep = '':'' \<or> sep = ''-''" "list_all is_space ws2"
      "length d = 11" "list_all is_digit d"
      unfolding marked_run_def by blast
    moreover from this(1) have "c # s = (c # pre) @ mk @ ws1 @ sep @ ws2 @ d @ post" by simp
    ultimately show ?thesis unfolding marked_run_def by blast
  qed
qed

lemma cuit_after_marker_complete:
  assumes "marked_run s d"
  shows "cuit_after_marker s \<noteq> None"
proof -
  from assms obtain pre mk ws1 sep ws2 post where
    s: "s = pre @ mk @ ws1 @ sep @ ws2 @ d @ post" and mk: "lower mk = ''cuit''" and
    p: "list_all is_space ws1" "sep = [] \<or> sep = '':'' \<or> sep = ''-''" "list_all is_space ws2"
       "length d = 11" "list_all is_digit d"
    unfolding marked_run_def by blast
  let ?rest = "mk @ ws1 @ sep @ ws2 @ d @ post"
  from mk have "length (lower mk) = 4" by simp
  then have l: "length mk = 4" by (simp add: lower_def)
  then have m: "marker_here ?rest" using mk by (simp add: marker_here_def)
  have a: "after_marker (drop 4 ?rest) = Some d"
    using after_marker_complete[OF p] l by simp
  have here: "cuit_after_marker ?rest \<noteq> None"
  proof -
    obtain c r where "?rest = c # r" using l by (cases mk) auto
    then show ?thesis using m a by (simp split: option.splits)
  qed
  have "cuit_after_marker (pre @ ?rest) \<noteq> None"
  proof (induction pre)
    case Nil
    then show ?case using here by simp
  next
    case (Cons c pre)
    then show ?case by (auto split: option.splits)
  qed
  then show ?thesis using s by simp
qed

lemma bare_run_sound:
  "bare_run prev s = Some d \<Longrightarrow>
   \<exists>pre post. s = pre @ d @ post \<and> length d = 11 \<and> list_all is_digit d \<and>
     (if pre = [] then \<not> prev else \<not> is_word (last pre)) \<and> (post = [] \<or> \<not> is_word (hd post))"
proof (induction s arbitrary: prev)
  case Nil
  then show ?case by simp
next
  case (Cons c s)
  show ?case
  proof (cases "\<not> prev \<and> eleven_digits (c # s) \<noteq> None \<and>
         (case drop 11 (c # s) of [] \<Rightarrow> True | d # _ \<Rightarrow> \<not> is_word d)")
    case True
    then have e: "eleven_digits (c # s) = Some d" using Cons.prems by simp
    then have d: "length d = 11" "list_all is_digit d" "d = take 11 (c # s)"
      by (auto dest: eleven_digits_Some)
    have "c # s = [] @ d @ drop 11 (c # s)" using d(3) by simp
    moreover have "drop 11 (c # s) = [] \<or> \<not> is_word (hd (drop 11 (c # s)))"
      using True by (cases "drop 11 (c # s)") auto
    ultimately have "c # s = [] @ d @ drop 11 (c # s) \<and> length d = 11 \<and> list_all is_digit d \<and>
        (if ([]::string) = [] then \<not> prev else \<not> is_word (last [])) \<and>
        (drop 11 (c # s) = [] \<or> \<not> is_word (hd (drop 11 (c # s))))"
      using d(1,2) True by simp
    then show ?thesis by (intro exI)
  next
    case False
    then have "bare_run (is_word c) s = Some d" using Cons.prems by auto
    from Cons.IH[OF this] obtain pre post where
      s: "s = pre @ d @ post" and d: "length d = 11" "list_all is_digit d" and
      b: "if pre = [] then \<not> is_word c else \<not> is_word (last pre)" and
      a: "post = [] \<or> \<not> is_word (hd post)"
      by blast
    have "c # s = (c # pre) @ d @ post" using s by simp
    moreover have "\<not> is_word (last (c # pre))" using b by (cases pre) auto
    ultimately have "c # s = (c # pre) @ d @ post \<and> length d = 11 \<and> list_all is_digit d \<and>
        (if c # pre = [] then \<not> prev else \<not> is_word (last (c # pre))) \<and>
        (post = [] \<or> \<not> is_word (hd post))"
      using d a by simp
    then show ?thesis by (intro exI)
  qed
qed

lemma cuit_bare_sound: "cuit_bare s = Some d \<Longrightarrow> bounded_run s d"
proof -
  assume "cuit_bare s = Some d"
  from bare_run_sound[OF this[unfolded cuit_bare_def]] obtain pre post where
    p: "s = pre @ d @ post" "length d = 11" "list_all is_digit d"
       "if pre = [] then \<not> False else \<not> is_word (last pre)"
       "post = [] \<or> \<not> is_word (hd post)"
    by blast
  from p(4) have "pre = [] \<or> \<not> is_word (last pre)" by (cases "pre = []") simp_all
  with p have "s = pre @ d @ post \<and> length d = 11 \<and> list_all is_digit d \<and>
        (pre = [] \<or> \<not> is_word (last pre)) \<and> (post = [] \<or> \<not> is_word (hd post))"
    by simp
  then show ?thesis unfolding bounded_run_def by (intro exI)
qed

lemma bare_run_complete:
  assumes d: "length d = 11" "list_all is_digit d" and a: "post = [] \<or> \<not> is_word (hd post)"
  shows "(if pre = [] then \<not> prev else \<not> is_word (last pre)) \<Longrightarrow>
         bare_run prev (pre @ d @ post) \<noteq> None"
proof (induction pre arbitrary: prev)
  case Nil
  obtain c r where c: "d = c # r" using d(1) by (cases d) auto
  have e: "eleven_digits (d @ post) = Some d" using d by (rule eleven_digits_append)
  have "drop 11 (d @ post) = post" using d(1) by simp
  then have "(case drop 11 (d @ post) of [] \<Rightarrow> True | x # _ \<Rightarrow> \<not> is_word x)"
    using a by (cases post) auto
  then show ?case using Nil e c by (auto simp del: eleven_digits_def)
next
  case (Cons c pre)
  have n: "if pre = [] then \<not> is_word c else \<not> is_word (last pre)"
    using Cons.prems by (cases pre) auto
  from Cons.IH[OF n] show ?case by (auto split: if_splits)
qed

lemma cuit_bare_complete: "bounded_run s d \<Longrightarrow> cuit_bare s \<noteq> None"
proof -
  assume "bounded_run s d"
  then obtain pre post where s: "s = pre @ d @ post" and d: "length d = 11" "list_all is_digit d"
    and b: "pre = [] \<or> \<not> is_word (last pre)" and a: "post = [] \<or> \<not> is_word (hd post)"
    unfolding bounded_run_def by blast
  from b have "if pre = [] then \<not> False else \<not> is_word (last pre)" by auto
  from bare_run_complete[OF d a this] s show ?thesis by (simp add: cuit_bare_def)
qed

text \<open>
  Claim C8. For a first row with at least one cell, with \<open>text\<close> the banner the method
  settles on:

  \<^item> when the method returns and the banner has a run of eleven digits that follows the
    \<^verbatim>\<open>CUIT\<close> marker (any case; white space and at most one colon or hyphen in between), the
    taxpayer id is such a marked run, whatever other runs there are; when the banner has no
    marked run, the id is a run of eleven digits that stands between word boundaries;
  \<^item> the direction is \<^verbatim>\<open>ventas\<close> when the lower-cased banner contains \<^verbatim>\<open>emitidos\<close>, and
    \<^verbatim>\<open>compras\<close> when it does not but contains \<^verbatim>\<open>recibidos\<close>;
  \<^item> the method raises exactly when the banner has no marked and no bounded run or names no
    direction, and the message of the \<^verbatim>\<open>ValueError\<close> contains the banner.
\<close>

theorem header_detection:
  assumes "row \<noteq> []"
  shows "(let text = header_text row in
          case detect_info_from_header row of
            Inr info \<Rightarrow>
              ((\<exists>d. marked_run text d) \<longrightarrow> marked_run text (info_cuit info)) \<and>
              (\<not> (\<exists>d. marked_run text d) \<longrightarrow> bounded_run text (info_cuit info)) \<and>
              info_tipo info =
                (if contains ''emitidos'' (lower text) then ''ventas'' else ''compras'') \<and>
              (contains ''emitidos'' (lower text) \<or> contains ''recibidos'' (lower text))
          | Inl e \<Rightarrow>
              e = ValueError (msg_header text) \<and> contains text (msg_header text) \<and>
              ((\<forall>d. \<not> marked_run text d \<and> \<not> bounded_run text d) \<or>
               (\<not> contains ''emitidos'' (lower text) \<and> \<not> contains ''recibidos'' (lower text))))"
proof -
  let ?text = "header_text row"
  show ?thesis
  proof (cases "detect_cuit ?text")
    case None
    then have n: "cuit_after_marker ?text = None" "cuit_bare ?text = None"
      by (auto simp: detect_cuit_def split: option.splits)
    have "\<forall>d. \<not> marked_run ?text d \<and> \<not> bounded_run ?text d"
      using n cuit_after_marker_complete cuit_bare_complete by blast
    then show ?thesis using assms None
      by (simp add: detect_info_from_header_def Let_def contains_msg_header)
  next
    case (Some c)
    have m: "(\<exists>d. marked_run ?text d) \<longrightarrow> marked_run ?text c"
    proof
      assume "\<exists>d. marked_run ?text d"
      then have "cuit_after_marker ?text \<noteq> None" using cuit_after_marker_complete by blast
      then have "cuit_after_marker ?text = Some c"
        using Some by (auto simp: detect_cuit_def split: option.splits)
      then show "marked_run ?text c" by (rule cuit_after_marker_sound)
    qed
    have b: "\<not> (\<exists>d. marked_run ?text d) \<longrightarrow> bounded_run ?text c"
    proof
      assume "\<not> (\<exists>d. marked_run ?text d)"
      then have "cuit_after_marker ?text = None"
        using cuit_after_marker_sound by (cases "cuit_after_marker ?text") auto
      then have "cuit_bare ?text = Some c" using Some by (simp add: detect_cuit_def)
      then show "bounded_run ?text c" by (rule cuit_bare_sound)
    qed
    show ?thesis
    proof (cases "detect_tipo ?text")
      case None
      then have "\<not> contains ''emitidos'' (lower ?text) \<and> \<not> contains ''recibidos'' (lower ?text)"
        by (auto simp: detect_tipo_def split: if_splits)
      then show ?thesis using assms Some None
        by (simp add: detect_info_from_header_def Let_def contains_msg_header)
    next
      case t: (Some t)
      then have t': "t = (if contains ''emitidos'' (lower ?text) then ''ventas'' else ''compras'')"
        and e: "contains ''emitidos'' (lower ?text) \<or> contains ''recibidos'' (lower ?text)"
        by (auto simp: detect_tipo_def split: if_splits)
      have "detect_info_from_header row = Inr \<lparr>info_cuit = c, info_tipo = t\<rparr>"
        using assms Some t by (simp add: detect_info_from_header_def Let_def)
      then show ?thesis using m b t' e by (simp add: Let_def)
    qed
  qed
qed

text \<open>
  The banner of the specification's scenario gives the id 30716820080 and \<^verbatim>\<open>ventas\<close>; a
  banner with a bare run before the marked one gives the marked one; a banner without a
  direction raises, and the message contains it.
\<close>

theorem header_detection_witness:
  "banner_example \<noteq> [] \<and>
   detect_info_from_header banner_example =
     Inr \<lparr>info_cuit = ''30716820080'', info_tipo = ''ventas''\<rparr> \<and>
   detect_info_from_header banner_two_runs =
     Inr \<lparr>info_cuit = ''30716820080'', info_tipo = ''compras''\<rparr> \<and>
   detect_info_from_header banner_without_tipo =
     Inl (ValueError (msg_header ''Mis Comprobantes - CUIT 30716820080'')) \<and>
   contains ''Mis Comprobantes - CUIT 30716820080''
     (msg_header ''Mis Comprobantes - CUIT 30716820080'')"
proof -
  have n: "banner_example \<noteq> []" "banner_without_tipo \<noteq> []" by (simp_all add: banner_example_def banner_without_tipo_def)
  have a: "detect_info_from_header banner_example =
             Inr \<lparr>info_cuit = ''30716820080'', info_tipo = ''ventas''\<rparr>" by code_simp
  have b: "detect_info_from_header banner_two_runs =
             Inr \<lparr>info_cuit = ''30716820080'', info_tipo = ''compras''\<rparr>" by code_simp
  have h: "header_text banner_without_tipo = ''Mis Comprobantes - CUIT 30716820080''" by code_simp
  have d: "isl (detect_info_from_header banner_without_tipo)" by code_simp
  then obtain e where e: "detect_info_from_header banner_without_tipo = Inl e"
    by (cases "detect_info_from_header banner_without_tipo") auto
  from header_detection[OF n(2)] e h
  have "e = ValueError (msg_header ''Mis Comprobantes - CUIT 30716820080'') \<and>
        contains ''Mis Comprobantes - CUIT 30716820080''
          (msg_header ''Mis Comprobantes - CUIT 30716820080'')"
    by (simp add: Let_def)
  with n a b e show ?thesis by simp
qed

section \<open>Properties of the method \<^verbatim>\<open>clean_data\<close> on its objects\<close>

lemma scale_loop_obj_spec:
  "a < length st \<Longrightarrow>
   \<exists>st'. scale_loop_obj fp mk cols a st =
            ((case scale_loop fp mk cols (st ! a) of Inl e \<Rightarrow> Some e | Inr _ \<Rightarrow> None), st') \<and>
          length st' = length st \<and>
          (\<forall>b. b \<noteq> a \<longrightarrow> st' ! b = st ! b) \<and>
          (\<forall>fr. scale_loop fp mk cols (st ! a) = Inr fr \<longrightarrow> st' ! a = fr)"
proof (induction cols arbitrary: st)
  case Nil
  then show ?case by simp
next
  case (Cons col cols)
  show ?case
  proof (cases "scale_step fp mk col (st ! a)")
    case (Inl e)
    then show ?thesis by simp
  next
    case (Inr fr)
    have l: "a < length (st[a := fr])" using Cons.prems by simp
    from Cons.IH[OF l] obtain st' where
      s: "scale_loop_obj fp mk cols a (st[a := fr]) =
            ((case scale_loop fp mk cols (st[a := fr] ! a) of Inl e \<Rightarrow> Some e | Inr _ \<Rightarrow> None), st')"
      and n: "length st' = length (st[a := fr])"
      and o: "\<forall>b. b \<noteq> a \<longrightarrow> st' ! b = st[a := fr] ! b"
      and r: "\<forall>fr'. scale_loop fp mk cols (st[a := fr] ! a) = Inr fr' \<longrightarrow> st' ! a = fr'"
      by blast
    have e: "st[a := fr] ! a = fr" using Cons.prems by simp
    show ?thesis
      using Inr s n o r e by (intro exI[of _ st']) (simp)
  qed
qed

lemma clean_data_call:
  assumes l: "self_df self = Some a0" and v: "a0 < length st"
    and c: "ExcelProcessor_clean_data fp fs self st = (r, self', st')"
  shows "self' = self \<and> length st \<le> length st' \<and> (\<forall>a<length st. st' ! a = st ! a) \<and>
         returned r st' = clean_data fp (st ! a0) \<and>
         (\<forall>a. r = Inr a \<longrightarrow> length st \<le> a \<and> a < length st')"
proof -
  let ?df = "st ! a0"
  let ?st2 = "st @ [?df]"
  let ?a1 = "length st"
  have a1: "?st2 ! ?a1 = ?df" by simp
  show ?thesis
  proof (cases "get_loc ''Moneda'' ?df")
    case None
    then show ?thesis using l v c
      by (auto simp: ExcelProcessor_clean_data_def alloc_def clean_data_def returned_def nth_append)
  next
    case (Some m)
    let ?d1 = "drop_columns (columns_to_drop m ?df) ?df"
    let ?st3 = "st @ [?df, ?d1]"
    let ?a2 = "Suc (length st)"
    let ?nc = "numeric_cols m ?d1"
    have a2: "?st3 ! ?a2 = ?d1" by (simp add: nth_append)
    have l2: "?a2 < length ?st3" by simp
    show ?thesis
    proof (cases "getcol ''Tipo'' ?d1")
      case None
      then show ?thesis using l v c Some
        by (auto simp: ExcelProcessor_clean_data_def alloc_def clean_data_def returned_def
                       nth_append Let_def)
    next
      case (Some tipo)
      let ?mk = "map is_nota_credito (cells tipo)"
      from scale_loop_obj_spec[OF l2, of fp ?mk ?nc] obtain st4 where
        s: "scale_loop_obj fp ?mk ?nc ?a2 ?st3 =
              ((case scale_loop fp ?mk ?nc (?st3 ! ?a2) of Inl e \<Rightarrow> Some e | Inr _ \<Rightarrow> None), st4)"
        and n4: "length st4 = length ?st3"
        and o4: "\<forall>b. b \<noteq> ?a2 \<longrightarrow> st4 ! b = ?st3 ! b"
        and r4: "\<forall>fr. scale_loop fp ?mk ?nc (?st3 ! ?a2) = Inr fr \<longrightarrow> st4 ! ?a2 = fr"
        by blast
      have old4: "\<forall>a<length st. st4 ! a = st ! a"
        using o4 by (auto simp: nth_append)
      note defs = ExcelProcessor_clean_data_def alloc_def Let_def nth_append
      note mo = \<open>get_loc ''Moneda'' ?df = Some m\<close>
      show ?thesis
      proof (cases "scale_loop fp ?mk ?nc ?d1")
        case (Inl e)
        then have "ExcelProcessor_clean_data fp fs self st = (Inl e, self, st4)"
          using l v mo Some s a2 by (simp add: defs)
        moreover have "clean_data fp ?df = Inl e"
          using \<open>get_loc ''Moneda'' ?df = Some m\<close> Some Inl by (simp add: clean_data_def Let_def)
        ultimately show ?thesis using c old4 n4 by (auto simp: returned_def)
      next
        case (Inr df2)
        then have d2: "st4 ! ?a2 = df2" using r4 a2 by simp
        show ?thesis
        proof (cases "format_fecha df2")
          case (Inl e)
          then have "ExcelProcessor_clean_data fp fs self st = (Inl e, self, st4)"
            using l v mo Some s a2 Inr d2 by (simp add: defs)
          moreover have "clean_data fp ?df = Inl e"
            using \<open>get_loc ''Moneda'' ?df = Some m\<close> Some Inr Inl
            by (simp add: clean_data_def Let_def)
          ultimately show ?thesis using c old4 n4 by (auto simp: returned_def)
        next
          case fr: (Inr df3)
          let ?st6 = "st4[?a2 := df3] @ [append_totals fp ?nc df3]"
          have "ExcelProcessor_clean_data fp fs self st = (Inr (length st4), self, ?st6)"
            using l v mo Some s a2 Inr d2 fr by (simp add: defs)
          moreover have "clean_data fp ?df = Inr (append_totals fp ?nc df3)"
            using \<open>get_loc ''Moneda'' ?df = Some m\<close> Some Inr fr
            by (simp add: clean_data_def Let_def)
          moreover have "\<forall>a<length st. ?st6 ! a = st ! a"
            using old4 n4 by (auto simp: nth_append)
          ultimately show ?thesis using c n4 by (auto simp: returned_def nth_append)
        qed
      qed
    qed
  qed
qed

text \<open>
  Claim C7, as the specification words it, does not hold for every loaded file. When the
  exchange-rate column stands after the marker it is itself one of the columns the loop
  scales: a rate of 2 becomes 4, and the amount of 1 to its right is then multiplied by 4,
  that is twice by the loaded rate, within a single call.
\<close>

theorem rate_after_marker_counterexample:
  "wf_frame rate_after_example \<and>
   (case ExcelProcessor_clean_data unrounded Map.empty processor_example [rate_after_example] of
      (r, self', st') \<Rightarrow> returned r st' = Inr rate_after_cleaned) \<and>
   \<not> spec_scaled_once unrounded rate_after_example rate_after_cleaned \<and>
   map_option cells (getcol ''IVA'' rate_after_example) = Some [I64 1] \<and>
   map_option cells (getcol ''Tipo Cambio'' rate_after_example) = Some [I64 2] \<and>
   map_option cells (getcol ''IVA'' rate_after_cleaned) = Some [I64 4, I64 4]"
  by code_simp

text \<open>
  Claim C7, amended. Take a processor with a loaded table and call \<^verbatim>\<open>clean_data\<close> twice.
  Neither call changes the processor or any table object that existed before it, so the
  loaded table is the same after both calls. Each call returns what the transformation makes
  of the loaded table, so the two outputs are equal tables, and the second call leaves the
  first output as it was. In both outputs a retained amount is the loaded amount multiplied
  once by the exchange rate as the loop finds it, with the sign of credit notes fixed. The
  rate the loop finds is the loaded rate whenever the rate column stands at or before the
  marker (the layout of the export) or not before the amount column: then the amount is
  scaled by the loaded rate once, not once per call. Only when the rate column stands after
  the marker and before the amount column is it the loaded rate multiplied by itself.
\<close>

theorem clean_data_leaves_loaded_table:
  assumes "self_df self = Some a0" and "a0 < length st"
    and "ExcelProcessor_clean_data fp fs self st = (r1, self1, st1)"
    and "ExcelProcessor_clean_data fp fs self1 st1 = (r2, self2, st2)"
  shows "self1 = self \<and> self2 = self \<and>
         (\<forall>a<length st. st1 ! a = st ! a \<and> st2 ! a = st ! a) \<and>
         st1 ! a0 = st ! a0 \<and> st2 ! a0 = st ! a0 \<and>
         returned r1 st1 = clean_data fp (st ! a0) \<and>
         returned r2 st2 = clean_data fp (st ! a0) \<and>
         returned r1 st2 = returned r1 st1 \<and>
         (\<forall>out m tipo j i.
             wf_frame (st ! a0) \<and> returned r2 st2 = Inr out \<and>
             get_loc ''Moneda'' (st ! a0) = Some m \<and>
             getcol ''Tipo'' (st ! a0) = Some tipo \<and>
             m < j \<and> j < length (st ! a0) \<and> is_numeric (ctype (st ! a0 ! j)) \<and>
             \<not> (isna_all (st ! a0 ! j) \<or> eq0_all (st ! a0 ! j)) \<and> i < nrows (st ! a0) \<longrightarrow>
             (\<exists>k oc. get_loc ''Tipo Cambio'' (st ! a0) = Some k \<and>
                   getcol (cname (st ! a0 ! j)) out = Some oc \<and>
                   cells oc ! i =
                     sign_fix (is_nota_credito (cells tipo ! i))
                       (mul_cell fp (cells (st ! a0 ! j) ! i)
                          (if m < k \<and> k < j
                           then sign_fix (is_nota_credito (cells tipo ! i))
                                  (mul_cell fp (cells (st ! a0 ! k) ! i) (cells (st ! a0 ! k) ! i))
                           else cells (st ! a0 ! k) ! i))))"
proof -
  from clean_data_call[OF assms(1,2,3)]
  have s1: "self1 = self" and g1: "length st \<le> length st1"
    and o1: "\<forall>a<length st. st1 ! a = st ! a"
    and v1: "returned r1 st1 = clean_data fp (st ! a0)"
    and b1: "\<forall>a. r1 = Inr a \<longrightarrow> length st \<le> a \<and> a < length st1"
    by blast+
  have l1: "self_df self1 = Some a0" using s1 assms(1) by simp
  have a1: "a0 < length st1" using g1 assms(2) by simp
  from clean_data_call[OF l1 a1 assms(4)]
  have s2: "self2 = self1" and o2: "\<forall>a<length st1. st2 ! a = st1 ! a"
    and v2: "returned r2 st2 = clean_data fp (st1 ! a0)"
    by blast+
  have e0: "st1 ! a0 = st ! a0" using o1 assms(2) by simp
  have e2: "st2 ! a0 = st ! a0" using o2 a1 e0 by simp
  have old: "\<forall>a<length st. st1 ! a = st ! a \<and> st2 ! a = st ! a"
    using o1 o2 g1 by auto
  have keep: "returned r1 st2 = returned r1 st1"
    using b1 o2 by (cases r1) (auto simp: returned_def)
  have once: "\<forall>out m tipo j i.
             wf_frame (st ! a0) \<and> returned r2 st2 = Inr out \<and>
             get_loc ''Moneda'' (st ! a0) = Some m \<and>
             getcol ''Tipo'' (st ! a0) = Some tipo \<and>
             m < j \<and> j < length (st ! a0) \<and> is_numeric (ctype (st ! a0 ! j)) \<and>
             \<not> (isna_all (st ! a0 ! j) \<or> eq0_all (st ! a0 ! j)) \<and> i < nrows (st ! a0) \<longrightarrow>
             (\<exists>k oc. get_loc ''Tipo Cambio'' (st ! a0) = Some k \<and>
                   getcol (cname (st ! a0 ! j)) out = Some oc \<and>
                   cells oc ! i =
                     sign_fix (is_nota_credito (cells tipo ! i))
                       (mul_cell fp (cells (st ! a0 ! j) ! i)
                          (if m < k \<and> k < j
                           then sign_fix (is_nota_credito (cells tipo ! i))
                                  (mul_cell fp (cells (st ! a0 ! k) ! i) (cells (st ! a0 ! k) ! i))
                           else cells (st ! a0 ! k) ! i)))"
  proof (intro allI impI, elim conjE)
    fix out m tipo j i
    assume "wf_frame (st ! a0)" "returned r2 st2 = Inr out"
      "get_loc ''Moneda'' (st ! a0) = Some m"
      "getcol ''Tipo'' (st ! a0) = Some tipo"
      "m < j" "j < length (st ! a0)" "is_numeric (ctype (st ! a0 ! j))"
      "\<not> (isna_all (st ! a0 ! j) \<or> eq0_all (st ! a0 ! j))" "i < nrows (st ! a0)"
    moreover from this(2) have "clean_data fp (st ! a0) = Inr out" using v2 e0 by simp
    ultimately show "\<exists>k oc. get_loc ''Tipo Cambio'' (st ! a0) = Some k \<and>
                   getcol (cname (st ! a0 ! j)) out = Some oc \<and>
                   cells oc ! i =
                     sign_fix (is_nota_credito (cells tipo ! i))
                       (mul_cell fp (cells (st ! a0 ! j) ! i)
                          (if m < k \<and> k < j
                           then sign_fix (is_nota_credito (cells tipo ! i))
                                  (mul_cell fp (cells (st ! a0 ! k) ! i) (cells (st ! a0 ! k) ! i))
                           else cells (st ! a0 ! k) ! i))"
      by (intro clean_data_scaled_cell)
  qed
  show ?thesis
    using s1 s2 old e0 e2 v1 v2 keep once by (simp only: simp_thms)
qed

text \<open>
  The processor with the example ledger loaded: both calls return the cleaned example, the
  loaded ledger is unchanged, and the credit note of 50 at rate 2 is -100 in the second
  output as in the first.
\<close>

theorem clean_data_leaves_loaded_table_witness:
  "\<exists>r1 self1 st1 r2 self2 st2.
     ExcelProcessor_clean_data unrounded Map.empty processor_example [ledger_example] = (r1, self1, st1) \<and>
     ExcelProcessor_clean_data unrounded Map.empty self1 st1 = (r2, self2, st2) \<and>
     self2 = processor_example \<and> st2 ! 0 = ledger_example \<and>
     returned r1 st1 = Inr ledger_example_cleaned \<and>
     returned r2 st2 = Inr ledger_example_cleaned \<and>
     (\<exists>oc. getcol ''Neto'' ledger_example_cleaned = Some oc \<and> cells oc ! 1 = F64 (Finite (- 100)))"
proof -
  obtain r1 self1 st1 where
    c1: "ExcelProcessor_clean_data unrounded Map.empty processor_example [ledger_example] = (r1, self1, st1)"
    by (metis prod_cases3)
  obtain r2 self2 st2 where
    c2: "ExcelProcessor_clean_data unrounded Map.empty self1 st1 = (r2, self2, st2)"
    by (metis prod_cases3)
  have l: "self_df processor_example = Some 0" by (simp add: processor_example_def)
  have v: "0 < length [ledger_example]" by simp
  have c: "clean_data unrounded ledger_example = Inr ledger_example_cleaned" by code_simp
  note t = clean_data_leaves_loaded_table[OF l v c1 c2]
  have w: "wf_frame ledger_example" by code_simp
  have h: "get_loc ''Moneda'' ledger_example = Some 3"
    "getcol ''Tipo'' ledger_example = Some (ledger_example ! 1)"
    "(3::nat) < 4" "4 < length ledger_example" "is_numeric (ctype (ledger_example ! 4))"
    "\<not> (isna_all (ledger_example ! 4) \<or> eq0_all (ledger_example ! 4))"
    "1 < nrows ledger_example"
    by code_simp+
  have k: "get_loc ''Tipo Cambio'' ledger_example = Some 2" by code_simp
  have g: "getcol ''Neto'' ledger_example_cleaned = Some (ledger_example_cleaned ! 4)"
    by code_simp
  have nm: "cname (ledger_example ! 4) = ''Neto''" by code_simp
  from t c have r2: "returned r2 st2 = Inr ledger_example_cleaned" by simp
  note q = t[THEN conjunct2, THEN conjunct2, THEN conjunct2, THEN conjunct2, THEN conjunct2,
             THEN conjunct2, THEN conjunct2, THEN conjunct2, rule_format,
             of ledger_example_cleaned 3 "ledger_example ! 1" 4 1]
  have p: "wf_frame ([ledger_example] ! 0) \<and> returned r2 st2 = Inr ledger_example_cleaned \<and>
           get_loc ''Moneda'' ([ledger_example] ! 0) = Some 3 \<and>
           getcol ''Tipo'' ([ledger_example] ! 0) = Some (ledger_example ! 1) \<and>
           3 < (4::nat) \<and> 4 < length ([ledger_example] ! 0) \<and>
           is_numeric (ctype ([ledger_example] ! 0 ! 4)) \<and>
           \<not> (isna_all ([ledger_example] ! 0 ! 4) \<or> eq0_all ([ledger_example] ! 0 ! 4)) \<and>
           1 < nrows ([ledger_example] ! 0)"
    using w r2 h by simp
  have "cells (ledger_example_cleaned ! 4) ! 1 = F64 (Finite (- 100))"
    using q[OF p] unfolding nth_Cons_0 k nm g
    by (simp add: ledger_example_def sign_fix_def pat_nc_def pat_nota_de_credito_def
        unrounded_def unrounded_mul_def of_float_def)
  then have "\<exists>oc. getcol ''Neto'' ledger_example_cleaned = Some oc \<and>
                  cells oc ! 1 = F64 (Finite (- 100))"
    using g by simp
  with t c c1 c2 show ?thesis by simp
qed

section \<open>Properties of the merge\<close>






lemma check_InrD:
  assumes "check_year_file_exists c t y h d = (Inr fc, h')"
  shows "\<exists>s folder. get_client_structure c h d = (Inr s, h') \<and> year_folder t s = Some folder \<and>
           fc = \<lparr>yf_exists = (files_list (year_query (year_filename c t y) folder) d \<noteq> []),
                 yf_file_id = (case files_list (year_query (year_filename c t y) folder) d of
                                 [] \<Rightarrow> None | i # _ \<Rightarrow> Some (item_id i)),
                 yf_folder_id = folder, yf_filename = year_filename c t y\<rparr>"
  using assms
  by (auto simp: check_year_file_exists_def Let_def year_query_def[abs_def]
           split: prod.splits sum.splits option.splits)


lemma drive_unlink [simp]: "w_drive (w\<lparr>w_tmp := f\<rparr>) = w_drive w"
  by simp

lemma fail_500_drive: "w_drive (snd (fail_500 e ps w)) = w_drive w"
  by (simp add: fail_500_def)

lemma new_tmp_drive: "new_tmp c w = (p, w') \<Longrightarrow> w_drive w' = w_drive w \<and> w_handler w' = w_handler w"
  by (auto simp: new_tmp_def)

lemma process_file_needs_confirmation:
  assumes "\<not> create_if_not_exists req"
    and "req_file req = Some df" and "clean_data fp df = Inr df_clean"
    and "check_year_file_exists (req_client req) (req_tipo req) (req_year req)
           (w_handler w) (w_drive w) = (Inr file_check, h)"
    and "\<not> yf_exists file_check"
  shows "process_file fp req w =
           (NeedsConfirmation (msg_needs_confirmation (yf_filename file_check)),
            w\<lparr>w_tmp := (w_tmp w)(w_next_tmp w := Some (UploadFile (req_file req))),
              w_next_tmp := Suc (w_next_tmp w), w_handler := h\<rparr>)"
  using assms by (simp add: process_file_def new_tmp_def Let_def)

lemma process_file_absent_drive:
  assumes "\<not> create_if_not_exists req"
    and "\<forall>fc h. check_year_file_exists (req_client req) (req_tipo req) (req_year req)
           (w_handler w) (w_drive w) = (Inr fc, h) \<longrightarrow> \<not> yf_exists fc"
  shows "w_drive (snd (process_file fp req w)) = w_drive w"
proof (cases "req_file req")
  case None
  then show ?thesis by (simp add: process_file_def new_tmp_def fail_500_def)
next
  case (Some df)
  show ?thesis
  proof (cases "clean_data fp df")
    case (Inl e)
    then show ?thesis using Some by (simp add: process_file_def new_tmp_def fail_500_def)
  next
    case (Inr dc)
    obtain r h where c: "check_year_file_exists (req_client req) (req_tipo req) (req_year req)
           (w_handler w) (w_drive w) = (r, h)" by (cases "check_year_file_exists (req_client req) (req_tipo req) (req_year req)
           (w_handler w) (w_drive w)") auto
    show ?thesis
    proof (cases r)
      case (Inl e)
      then show ?thesis using Some Inr c
        by (simp add: process_file_def new_tmp_def fail_500_def)
    next
      case fc: (Inr fc)
      then have "\<not> yf_exists fc" using assms(2) c by blast
      then show ?thesis using Some Inr c fc assms(1)
        by (simp add: process_file_def new_tmp_def Let_def)
    qed
  qed
qed

















subsection \<open>The confirmation gate\<close>

text \<open>
  Claim C6. Take a request that does not set \<^verbatim>\<open>create_if_not_exists\<close>, on a drive where
  \<^verbatim>\<open>check_year_file_exists\<close> does not find the year's workbook. Then the drive after the
  request is the drive before it: nothing is created, replaced or deleted. And when the
  upload is a table that \<^verbatim>\<open>clean_data\<close> cleans and the check completes, the answer is the
  \<^verbatim>\<open>needs_confirmation\<close> record that names the missing file.
\<close>

theorem needs_confirmation_no_write:
  assumes "\<not> create_if_not_exists req"
    and "\<forall>fc h. check_year_file_exists (req_client req) (req_tipo req) (req_year req)
                  (w_handler w) (w_drive w) = (Inr fc, h) \<longrightarrow> \<not> yf_exists fc"
  shows "w_drive (snd (process_file fp req w)) = w_drive w \<and>
         (\<forall>df df_clean fc h.
             req_file req = Some df \<and> clean_data fp df = Inr df_clean \<and>
             check_year_file_exists (req_client req) (req_tipo req) (req_year req)
               (w_handler w) (w_drive w) = (Inr fc, h) \<longrightarrow>
             fst (process_file fp req w) =
               NeedsConfirmation
                 (msg_needs_confirmation
                    (year_filename (req_client req) (req_tipo req) (req_year req))))"
proof -
  have a: "w_drive (snd (process_file fp req w)) = w_drive w"
    using assms by (rule process_file_absent_drive)
  have b: "fst (process_file fp req w) =
               NeedsConfirmation
                 (msg_needs_confirmation
                    (year_filename (req_client req) (req_tipo req) (req_year req)))"
    if u: "req_file req = Some df" "clean_data fp df = Inr dc"
      and c: "check_year_file_exists (req_client req) (req_tipo req) (req_year req)
               (w_handler w) (w_drive w) = (Inr fc, h)"
    for df dc fc h
  proof -
    from assms(2) c have n: "\<not> yf_exists fc" by blast
    from check_InrD[OF c] have "yf_filename fc = year_filename (req_client req) (req_tipo req) (req_year req)"
      by auto
    with process_file_needs_confirmation[OF assms(1) u c n] show ?thesis by simp
  qed
  from a b show ?thesis by blast
qed

text \<open>
  On the example drive, which has the folders of the client and no workbook, the example
  request is answered with the confirmation request, and the drive is unchanged.
\<close>

theorem needs_confirmation_no_write_witness:
  "\<not> create_if_not_exists request_example \<and>
   fst (process_file unrounded request_example world_example) =
     NeedsConfirmation (msg_needs_confirmation ''Libro Iva Ventas 2024 ACME.xlsx'') \<and>
   w_drive (snd (process_file unrounded request_example world_example)) = drive_example"
proof -
  have n: "\<not> create_if_not_exists request_example" by (simp add: request_example_def)
  have c: "check_year_file_exists (req_client request_example) (req_tipo request_example)
             (req_year request_example) (w_handler world_example) (w_drive world_example) =
           (Inr \<lparr>yf_exists = False, yf_file_id = None, yf_folder_id = 2,
                 yf_filename = ''Libro Iva Ventas 2024 ACME.xlsx''\<rparr>,
            \<lparr>root_folder_id = Some 0\<rparr>)"
    by code_simp
  then have a: "\<forall>fc h. check_year_file_exists (req_client request_example)
                  (req_tipo request_example) (req_year request_example)
                  (w_handler world_example) (w_drive world_example) = (Inr fc, h) \<longrightarrow>
                \<not> yf_exists fc"
    by auto
  have f: "req_file request_example = Some ledger_example" by (simp add: request_example_def)
  have d: "clean_data unrounded ledger_example = Inr ledger_example_cleaned" by code_simp
  have y: "year_filename (req_client request_example) (req_tipo request_example)
             (req_year request_example) = ''Libro Iva Ventas 2024 ACME.xlsx''"
    by code_simp
  have w: "w_drive world_example = drive_example" by (simp add: world_example_def)
  from needs_confirmation_no_write[OF n a] f d c y w n show ?thesis by auto
qed

subsection \<open>A month is merged once\<close>




end
